theory Spec2Isabelle
  imports Main "HOL-Library.Monad_Syntax" "HOL-Library.AList"
begin

section \<open>JavaScript values\<close>

text \<open>
  The reducer \<^verbatim>\<open>getInitialState.js\<close> works on plain data: the bootstrap payload of the
  server and what \<^verbatim>\<open>JSON.parse\<close> returns for the item stored in the browser. A value is
  therefore a tree: \<^verbatim>\<open>undefined\<close>, \<^verbatim>\<open>null\<close>, a boolean, a number, a string, an array or
  a plain object. Numbers are IEEE doubles in JavaScript; their type \<open>'n\<close> is left
  open here and everything the program needs of them is a field of the \<open>host\<close> record
  below, so that every theorem holds for whatever the numbers are.

  An object is the list of its own properties. A thrown exception is the result
  \<open>None\<close> of the option monad; the program never inspects what it catches.
\<close>

datatype 'n jsval =
    JUndefined
  | JNull
  | JBool bool
  | JNum 'n
  | JStr string
  | JArr "'n jsval list"
  | JObj "(string \<times> 'n jsval) list"

type_synonym 'n props = "(string \<times> 'n jsval) list"

text \<open>The primitive values: every value but an array or an object.\<close>

fun primitive :: "'n jsval \<Rightarrow> bool" where
  "primitive (JArr xs) = False"
| "primitive (JObj ps) = False"
| "primitive v = True"

text \<open>
  What the program takes from its host: the number primitives, the built-ins
  \<^verbatim>\<open>Number\<close>, \<^verbatim>\<open>JSON.parse\<close> and \<^verbatim>\<open>Date.now\<close>, and the two imported functions \<^verbatim>\<open>t\<close> and
  \<^verbatim>\<open>getToastsFromPyFlashMessages\<close>. A function that can throw returns an option.
\<close>

record 'n host =
  h_truthy :: "'n \<Rightarrow> bool"
  h_strict_eq :: "'n \<Rightarrow> 'n \<Rightarrow> bool"
  h_same_value_zero :: "'n \<Rightarrow> 'n \<Rightarrow> bool"
  h_to_string :: "'n \<Rightarrow> string"
  h_of_nat :: "nat \<Rightarrow> 'n"
  h_Number :: "'n jsval \<Rightarrow> 'n jsval option"
  h_JSON_parse :: "string \<Rightarrow> 'n jsval option"
  h_Date_now :: "'n jsval"
  h_t :: "string \<Rightarrow> 'n jsval"
  h_getToastsFromPyFlashMessages :: "'n jsval \<Rightarrow> 'n jsval option"

subsection \<open>Property keys and their order\<close>

text \<open>
  The own property keys of an object are ordered: array indices first, ascending, then
  the other strings in the order of their creation. A string is an array index when it
  is the decimal numeral of a number below \<open>2^32 - 1\<close>.
\<close>

definition digit :: "nat \<Rightarrow> char" where
  "digit d = ''0123456789'' ! d"

fun digits :: "nat \<Rightarrow> string" where
  "digits n = (if n < 10 then [digit n] else digits (n div 10) @ [digit (n mod 10)])"

declare digits.simps [simp del]

definition numeral_value :: "string \<Rightarrow> nat" where
  "numeral_value k = foldl (\<lambda>n c. 10 * n + (of_char c - 48)) 0 k"

definition array_index :: "string \<Rightarrow> nat option" where
  "array_index k =
     (let n = numeral_value k in if digits n = k \<and> n < 2 ^ 32 - 1 then Some n else None)"

fun insert_index :: "nat \<Rightarrow> string \<Rightarrow> 'v \<Rightarrow> (string \<times> 'v) list \<Rightarrow> (string \<times> 'v) list" where
  "insert_index i k v [] = [(k, v)]"
| "insert_index i k v ((k', v') # ps) =
     (case array_index k' of
        Some j \<Rightarrow> if j < i then (k', v') # insert_index i k v ps else (k, v) # (k', v') # ps
      | None \<Rightarrow> (k, v) # (k', v') # ps)"

text \<open>
  Defining the property \<open>k\<close> of an object: an existing property keeps its place and takes
  the new value; a new array index goes to its place among the indices; any other new
  key goes to the end.
\<close>

definition define_prop :: "'n props \<Rightarrow> string \<Rightarrow> 'n jsval \<Rightarrow> 'n props" where
  "define_prop ps k v =
     (case (map_of ps k, array_index k) of
        (None, Some i) \<Rightarrow> insert_index i k v ps
      | _ \<Rightarrow> AList.update k v ps)"

definition define_all :: "'n props \<Rightarrow> 'n props \<Rightarrow> 'n props" where
  "define_all ps kvs = fold (\<lambda>(k, v) acc. define_prop acc k v) kvs ps"

text \<open>An object literal \<^verbatim>\<open>{k1: v1, ..., kn: vn}\<close> defines its properties in order.\<close>

definition object :: "'n props \<Rightarrow> 'n props" where
  "object kvs = define_all [] kvs"

text \<open>
  The properties a value lists: those of an object as written, the elements of an array
  and the characters of a string under their indices; other primitives have none.
\<close>

fun listed :: "'n jsval \<Rightarrow> 'n props" where
  "listed (JObj ps) = ps"
| "listed (JArr xs) = zip (map digits [0..<length xs]) xs"
| "listed (JStr s) = zip (map digits [0..<length s]) (map (\<lambda>c. JStr [c]) s)"
| "listed _ = []"

text \<open>The own enumerable properties of a value, in key order.\<close>

definition own_props :: "'n jsval \<Rightarrow> 'n props" where
  "own_props v = define_all [] (listed v)"

definition own_prop :: "'n jsval \<Rightarrow> string \<Rightarrow> 'n jsval option" where
  "own_prop v k = map_of (own_props v) k"

text \<open>Spreading \<open>v\<close> into an object under construction: \<^verbatim>\<open>{...ps, ...v}\<close>.\<close>

definition spread :: "'n props \<Rightarrow> 'n jsval \<Rightarrow> 'n props" where
  "spread ps v = define_all ps (own_props v)"

text \<open>
  Reading \<^verbatim>\<open>v.k\<close> or \<^verbatim>\<open>v[k]\<close>: a \<^verbatim>\<open>TypeError\<close> on \<^verbatim>\<open>undefined\<close> and \<^verbatim>\<open>null\<close>, the own
  property if there is one, the \<^verbatim>\<open>length\<close> of an array or a string, and \<^verbatim>\<open>undefined\<close>
  otherwise. None of the names that the program reads is supplied by a prototype. Under
  a computed key (\<^verbatim>\<open>queryEditors[qe.id]\<close>, \<^verbatim>\<open>tables[table.id]\<close>) a prototype can supply a
  value, a method or \<^verbatim>\<open>Object.prototype\<close> itself; the program only spreads what it reads
  there, and these values have no enumerable property of their own, as \<^verbatim>\<open>undefined\<close> has
  none.
\<close>

fun get_prop :: "'n host \<Rightarrow> 'n jsval \<Rightarrow> string \<Rightarrow> 'n jsval option" where
  "get_prop h JUndefined k = None"
| "get_prop h JNull k = None"
| "get_prop h (JArr xs) k =
     Some (if k = ''length'' then JNum (h_of_nat h (length xs))
           else case own_prop (JArr xs) k of None \<Rightarrow> JUndefined | Some x \<Rightarrow> x)"
| "get_prop h (JStr s) k =
     Some (if k = ''length'' then JNum (h_of_nat h (length s))
           else case own_prop (JStr s) k of None \<Rightarrow> JUndefined | Some x \<Rightarrow> x)"
| "get_prop h v k = Some (case own_prop v k of None \<Rightarrow> JUndefined | Some x \<Rightarrow> x)"

subsection \<open>Conversions and comparisons\<close>

fun truthy :: "'n host \<Rightarrow> 'n jsval \<Rightarrow> bool" where
  "truthy h JUndefined = False"
| "truthy h JNull = False"
| "truthy h (JBool b) = b"
| "truthy h (JNum n) = h_truthy h n"
| "truthy h (JStr s) = (s \<noteq> [])"
| "truthy h (JArr xs) = True"
| "truthy h (JObj ps) = True"

text \<open>\<^verbatim>\<open>a || b\<close> and \<^verbatim>\<open>a && b\<close> on values already evaluated.\<close>

definition js_or :: "'n host \<Rightarrow> 'n jsval \<Rightarrow> 'n jsval \<Rightarrow> 'n jsval" where
  "js_or h a b = (if truthy h a then a else b)"

definition js_and :: "'n host \<Rightarrow> 'n jsval \<Rightarrow> 'n jsval \<Rightarrow> 'n jsval" where
  "js_and h a b = (if truthy h a then b else a)"

text \<open>
  \<^verbatim>\<open>a === b\<close>. Two arrays or objects are equal only if they are the same reference; the
  values of a parsed tree are all distinct references, so the comparison is false.
\<close>

definition strict_eq :: "'n host \<Rightarrow> 'n jsval \<Rightarrow> 'n jsval \<Rightarrow> bool" where
  "strict_eq h a b =
     (case a of
        JNum x \<Rightarrow> (case b of JNum y \<Rightarrow> h_strict_eq h x y | _ \<Rightarrow> False)
      | JArr _ \<Rightarrow> False
      | JObj _ \<Rightarrow> False
      | _ \<Rightarrow> a = b)"

text \<open>The comparison of \<^verbatim>\<open>Set.prototype.has\<close>: \<^verbatim>\<open>SameValueZero\<close>.\<close>

definition same_value_zero :: "'n host \<Rightarrow> 'n jsval \<Rightarrow> 'n jsval \<Rightarrow> bool" where
  "same_value_zero h a b =
     (case a of
        JNum x \<Rightarrow> (case b of JNum y \<Rightarrow> h_same_value_zero h x y | _ \<Rightarrow> False)
      | JArr _ \<Rightarrow> False
      | JObj _ \<Rightarrow> False
      | _ \<Rightarrow> a = b)"

fun join :: "string list \<Rightarrow> string" where
  "join [] = []"
| "join [s] = s"
| "join (s # r) = s @ '','' @ join r"

text \<open>
  The method call \<^verbatim>\<open>v.toString()\<close>: a \<^verbatim>\<open>TypeError\<close> on \<^verbatim>\<open>undefined\<close> and \<^verbatim>\<open>null\<close>, and
  on an object whose own property \<^verbatim>\<open>toString\<close> hides the method (a property of plain
  data is not callable). An array joins its elements, \<^verbatim>\<open>undefined\<close> and \<^verbatim>\<open>null\<close> as
  empty strings.
\<close>

fun toString :: "'n host \<Rightarrow> 'n jsval \<Rightarrow> string option" where
  "toString h JUndefined = None"
| "toString h JNull = None"
| "toString h (JBool b) = Some (if b then ''true'' else ''false'')"
| "toString h (JNum n) = Some (h_to_string h n)"
| "toString h (JStr s) = Some s"
| "toString h (JArr xs) =
     map_option join
       (those (map (\<lambda>x. if x = JUndefined \<or> x = JNull then Some [] else toString h x) xs))"
| "toString h (JObj ps) =
     (if ''toString'' \<in> fst ` set ps then None else Some ''[object Object]'')"

text \<open>The key of a computed property \<^verbatim>\<open>[v]\<close>: \<^verbatim>\<open>ToPropertyKey\<close>.\<close>

fun to_key :: "'n host \<Rightarrow> 'n jsval \<Rightarrow> string option" where
  "to_key h JUndefined = Some ''undefined''"
| "to_key h JNull = Some ''null''"
| "to_key h v = toString h v"

text \<open>The receiver of \<^verbatim>\<open>forEach\<close>, \<^verbatim>\<open>filter\<close> and \<^verbatim>\<open>reduce\<close> must be an array.\<close>

fun array_elems :: "'n jsval \<Rightarrow> 'n jsval list option" where
  "array_elems (JArr xs) = Some xs"
| "array_elems _ = None"

text \<open>The elements a spread argument \<^verbatim>\<open>f(...v)\<close> iterates: of an array or of a string.\<close>

fun iterate :: "'n jsval \<Rightarrow> 'n jsval list option" where
  "iterate (JArr xs) = Some xs"
| "iterate (JStr s) = Some (map (\<lambda>c. JStr [c]) s)"
| "iterate _ = None"

text \<open>\<^verbatim>\<open>Object.values(v)\<close> throws on \<^verbatim>\<open>undefined\<close> and \<^verbatim>\<open>null\<close>.\<close>

fun Object_values :: "'n jsval \<Rightarrow> 'n jsval list option" where
  "Object_values JUndefined = None"
| "Object_values JNull = None"
| "Object_values v = Some (map snd (own_props v))"

subsection \<open>Statements that may throw\<close>

text \<open>
  A loop that assigns to a variable of the enclosing function leaves, when its body
  throws, the assignments of the iterations before. \<open>Normal s\<close> is the state after a
  statement that completed, \<open>Abrupt s\<close> the state at the moment of a throw.
\<close>

datatype 's completion = Normal 's | Abrupt 's

fun forEach :: "('a \<Rightarrow> 's \<Rightarrow> 's option) \<Rightarrow> 'a list \<Rightarrow> 's \<Rightarrow> 's completion" where
  "forEach f [] s = Normal s"
| "forEach f (x # xs) s = (case f x s of None \<Rightarrow> Abrupt s | Some s' \<Rightarrow> forEach f xs s')"

fun attempt :: "'s \<Rightarrow> 's option \<Rightarrow> 's completion" where
  "attempt s None = Abrupt s"
| "attempt s (Some s') = Normal s'"

fun and_then :: "'s completion \<Rightarrow> ('s \<Rightarrow> 's completion) \<Rightarrow> 's completion" where
  "and_then (Normal s) f = f s"
| "and_then (Abrupt s) f = Abrupt s"

text \<open>Outside a \<^verbatim>\<open>try\<close> the exception propagates; \<^verbatim>\<open>catch\<close> continues with the state.\<close>

fun propagate :: "'s completion \<Rightarrow> 's option" where
  "propagate (Normal s) = Some s"
| "propagate (Abrupt s) = None"

fun catch :: "'s completion \<Rightarrow> 's" where
  "catch (Normal s) = s"
| "catch (Abrupt s) = s"

text \<open>\<^verbatim>\<open>xs.filter(p)\<close> with a predicate that may throw.\<close>

fun filter_throwing :: "('a \<Rightarrow> bool option) \<Rightarrow> 'a list \<Rightarrow> 'a list option" where
  "filter_throwing p [] = Some []"
| "filter_throwing p (x # xs) =
     do { b \<leftarrow> p x; r \<leftarrow> filter_throwing p xs; Some (if b then x # r else r) }"

section \<open>dedupeTabHistory\<close>

text \<open>\<^verbatim>\<open>result.slice(-1)[0]\<close>: the last element, \<^verbatim>\<open>undefined\<close> for the empty array.\<close>

definition last_or_undefined :: "'n jsval list \<Rightarrow> 'n jsval" where
  "last_or_undefined result = (if result = [] then JUndefined else last result)"

text \<open>
  \<^verbatim>\<open>result.concat(v)\<close>: an argument that is an array is spread, its elements are appended
  one by one; any other value is appended as it is.
\<close>

definition concat_value :: "'n jsval list \<Rightarrow> 'n jsval \<Rightarrow> 'n jsval list" where
  "concat_value result v = (case v of JArr elems \<Rightarrow> result @ elems | _ \<Rightarrow> result @ [v])"

definition dedupeTabHistory :: "'n host \<Rightarrow> 'n jsval list \<Rightarrow> 'n jsval list" where
  "dedupeTabHistory h tabHistory =
     foldl (\<lambda>result tabId.
              if strict_eq h (last_or_undefined result) tabId then result
              else concat_value result tabId)
       [] tabHistory"

section \<open>getInitialState\<close>

subsection \<open>Defaults\<close>

definition defaultQueryEditor :: "'n host \<Rightarrow> 'n jsval \<Rightarrow> 'n jsval \<Rightarrow> 'n props option" where
  "defaultQueryEditor h defaultDbId common =
     do {
       conf \<leftarrow> get_prop h common ''conf'';
       queryLimit \<leftarrow> get_prop h conf ''DEFAULT_SQLLAB_LIMIT'';
       Some (object
         [(''id'', JNull),
          (''loaded'', JBool True),
          (''name'', h_t h ''Untitled query''),
          (''sql'', JStr (''SELECT *'' @ [CHR 0x0A] @ ''FROM'' @ [CHR 0x0A] @ ''WHERE'')),
          (''selectedText'', JNull),
          (''latestQueryId'', JNull),
          (''autorun'', JBool False),
          (''templateParams'', JNull),
          (''dbId'', defaultDbId),
          (''queryLimit'', queryLimit),
          (''validationResult'',
             JObj (object [(''id'', JNull), (''errors'', JArr []), (''completed'', JBool False)])),
          (''hideLeftBar'', JBool False)])
     }"

subsection \<open>State of the backend\<close>

text \<open>\<^verbatim>\<open>v?.k\<close>\<close>

definition optional_chain :: "'n host \<Rightarrow> 'n jsval \<Rightarrow> string \<Rightarrow> 'n jsval option" where
  "optional_chain h v k = (if v = JUndefined \<or> v = JNull then Some JUndefined else get_prop h v k)"

text \<open>The editor of the active tab: the first branch of the loop over \<^verbatim>\<open>tabStateIds\<close>.\<close>

definition activeQueryEditor :: "'n host \<Rightarrow> 'n jsval \<Rightarrow> 'n jsval \<Rightarrow> 'n props option" where
  "activeQueryEditor h activeTab tabId =
     do {
       idString \<leftarrow> toString h tabId;
       label \<leftarrow> get_prop h activeTab ''label'';
       sql \<leftarrow> get_prop h activeTab ''sql'';
       latest_query \<leftarrow> get_prop h activeTab ''latest_query'';
       latestQueryId \<leftarrow> (if truthy h latest_query then get_prop h latest_query ''id'' else Some JNull);
       saved_query \<leftarrow> get_prop h activeTab ''saved_query'';
       remoteId \<leftarrow> optional_chain h saved_query ''id'';
       autorun \<leftarrow> get_prop h activeTab ''autorun'';
       template_params \<leftarrow> get_prop h activeTab ''template_params'';
       database_id \<leftarrow> get_prop h activeTab ''database_id'';
       schema \<leftarrow> get_prop h activeTab ''schema'';
       query_limit \<leftarrow> get_prop h activeTab ''query_limit'';
       hide_left_bar \<leftarrow> get_prop h activeTab ''hide_left_bar'';
       Some (object
         [(''id'', JStr idString),
          (''loaded'', JBool True),
          (''name'', label),
          (''sql'', js_or h sql JUndefined),
          (''selectedText'', JUndefined),
          (''latestQueryId'', latestQueryId),
          (''remoteId'', remoteId),
          (''autorun'', autorun),
          (''templateParams'', js_or h template_params JUndefined),
          (''dbId'', database_id),
          (''schema'', schema),
          (''queryLimit'', query_limit),
          (''validationResult'',
             JObj (object [(''id'', JNull), (''errors'', JArr []), (''completed'', JBool False)])),
          (''hideLeftBar'', hide_left_bar)])
     }"

text \<open>The dummy state of any other tab: the second branch.\<close>

definition dummyQueryEditor :: "'n host \<Rightarrow> 'n props \<Rightarrow> 'n jsval \<Rightarrow> 'n jsval \<Rightarrow> 'n props option" where
  "dummyQueryEditor h defaultEditor tabId label =
     do {
       idString \<leftarrow> toString h tabId;
       Some (define_all (spread [] (JObj defaultEditor))
         [(''id'', JStr idString), (''loaded'', JBool False), (''name'', label)])
     }"

text \<open>
  The body of \<^verbatim>\<open>tabStateIds.forEach(({ id, label }) => ...)\<close>, on the variable
  \<^verbatim>\<open>queryEditors\<close>.
\<close>

definition load_tab ::
  "'n host \<Rightarrow> 'n props \<Rightarrow> 'n jsval \<Rightarrow> 'n jsval \<Rightarrow> 'n props \<Rightarrow> 'n props option" where
  "load_tab h defaultEditor activeTab tabState queryEditors =
     do {
       tabId \<leftarrow> get_prop h tabState ''id'';
       label \<leftarrow> get_prop h tabState ''label'';
       activeId \<leftarrow> (if truthy h activeTab then get_prop h activeTab ''id'' else Some JUndefined);
       queryEditor \<leftarrow>
         (if truthy h activeTab \<and> strict_eq h activeId tabId
          then activeQueryEditor h activeTab tabId
          else dummyQueryEditor h defaultEditor tabId label);
       editorId \<leftarrow> get_prop h (JObj queryEditor) ''id'';
       key \<leftarrow> to_key h editorId;
       Some (define_prop (spread [] (JObj queryEditors)) key (JObj queryEditor))
     }"

definition initialTabHistory :: "'n host \<Rightarrow> 'n jsval \<Rightarrow> 'n jsval list option" where
  "initialTabHistory h activeTab =
     (if truthy h activeTab
      then do {
        activeId \<leftarrow> get_prop h activeTab ''id'';
        idString \<leftarrow> toString h activeId;
        Some [JStr idString]
      }
      else Some [])"

text \<open>
  The body of the loop over the table schemas of the active tab that passed the
  filter, on the variable \<^verbatim>\<open>tables\<close>. The destructuring of \<^verbatim>\<open>tableSchema.description\<close>
  throws on \<^verbatim>\<open>undefined\<close>.
\<close>

definition load_table :: "'n host \<Rightarrow> 'n jsval \<Rightarrow> 'n props \<Rightarrow> 'n props option" where
  "load_table h tableSchema tables =
     do {
       description \<leftarrow> get_prop h tableSchema ''description'';
       dataPreviewQueryId \<leftarrow> get_prop h description ''dataPreviewQueryId'';
       let persistData = filter (\<lambda>(k, v). k \<noteq> ''dataPreviewQueryId'') (own_props description);
       database_id \<leftarrow> get_prop h tableSchema ''database_id'';
       tab_state_id \<leftarrow> get_prop h tableSchema ''tab_state_id'';
       queryEditorId \<leftarrow> toString h tab_state_id;
       schema \<leftarrow> get_prop h tableSchema ''schema'';
       name \<leftarrow> get_prop h tableSchema ''table'';
       expanded \<leftarrow> get_prop h tableSchema ''expanded'';
       tableId \<leftarrow> get_prop h tableSchema ''id'';
       let table = object
         [(''dbId'', database_id),
          (''queryEditorId'', JStr queryEditorId),
          (''schema'', schema),
          (''name'', name),
          (''expanded'', expanded),
          (''id'', tableId),
          (''dataPreviewQueryId'', dataPreviewQueryId),
          (''persistData'', JObj persistData),
          (''initialized'', JBool True)];
       key \<leftarrow> to_key h tableId;
       Some (define_prop (spread [] (JObj tables)) key (JObj table))
     }"

definition has_description :: "'n host \<Rightarrow> 'n jsval \<Rightarrow> bool option" where
  "has_description h tableSchema =
     do { description \<leftarrow> get_prop h tableSchema ''description''; Some (\<not> strict_eq h description JNull) }"

definition initialTables :: "'n host \<Rightarrow> 'n jsval \<Rightarrow> 'n props option" where
  "initialTables h activeTab =
     (if truthy h activeTab
      then do {
        table_schemas \<leftarrow> get_prop h activeTab ''table_schemas'';
        schemas \<leftarrow> array_elems table_schemas;
        described \<leftarrow> filter_throwing (has_description h) schemas;
        propagate (forEach (load_table h) described [])
      }
      else Some [])"

subsection \<open>State of the browser\<close>

text \<open>
  The item \<^verbatim>\<open>redux\<close> of \<^verbatim>\<open>localStorage\<close>, the only one the program touches: the store
  holds a string under the key or nothing, or the browser denies access to it and
  every use throws.
\<close>

datatype storage = Unavailable | Holds "string option"

fun getItem :: "storage \<Rightarrow> string option option" where
  "getItem Unavailable = None"
| "getItem (Holds item) = Some item"

fun removeItem :: "storage \<Rightarrow> storage" where
  "removeItem Unavailable = Unavailable"
| "removeItem (Holds item) = Holds None"

text \<open>The variables that the \<^verbatim>\<open>try\<close> block assigns to, and the store.\<close>

record 'n vars =
  v_queryEditors :: "'n props"
  v_tables :: "'n props"
  v_queries :: "'n props"
  v_tabHistory :: "'n jsval list"
  v_unsavedQueryEditor :: "'n jsval"
  v_localStorage :: storage

text \<open>The object stored under \<^verbatim>\<open>[qe.id]\<close> by the loop over \<^verbatim>\<open>sqlLab.queryEditors\<close>.\<close>

definition merged_editor ::
  "'n host \<Rightarrow> 'n jsval \<Rightarrow> 'n jsval \<Rightarrow> 'n jsval \<Rightarrow> 'n props option" where
  "merged_editor h unsavedQueryEditor existing qe =
     do {
       title \<leftarrow> get_prop h qe ''title'';
       name \<leftarrow> get_prop h qe ''name'';
       unsavedId \<leftarrow> get_prop h unsavedQueryEditor ''id'';
       qeId \<leftarrow> get_prop h qe ''id'';
       Some (define_all
         (spread
            (define_prop (spread (spread [] existing) qe) ''name'' (js_or h title name))
            (js_and h (JBool (strict_eq h unsavedId qeId)) unsavedQueryEditor))
         [(''inLocalStorage'', JBool True), (''loaded'', JBool True)])
     }"

definition merge_editor :: "'n host \<Rightarrow> 'n jsval \<Rightarrow> 'n jsval \<Rightarrow> 'n props \<Rightarrow> 'n props option" where
  "merge_editor h unsavedQueryEditor qe queryEditors =
     do {
       qeId \<leftarrow> get_prop h qe ''id'';
       key \<leftarrow> to_key h qeId;
       existing \<leftarrow> get_prop h (JObj queryEditors) key;
       merged \<leftarrow> merged_editor h unsavedQueryEditor existing qe;
       Some (define_prop (spread [] (JObj queryEditors)) key (JObj merged))
     }"

text \<open>
  The callback of \<^verbatim>\<open>sqlLab.tables.reduce\<close>. Its accumulator is paired with the set
  \<^verbatim>\<open>expandedTables\<close>, the list of the values added to it; \<^verbatim>\<open>tables\<close> is the variable of
  the enclosing function, which the loop reads and does not change.
\<close>

definition merge_table ::
  "'n host \<Rightarrow> 'n props \<Rightarrow> 'n jsval \<Rightarrow> 'n jsval list \<times> 'n props \<Rightarrow> ('n jsval list \<times> 'n props) option" where
  "merge_table h tables table state =
     (case state of (expandedTables, merged) \<Rightarrow>
        do {
          queryEditorId \<leftarrow> get_prop h table ''queryEditorId'';
          let expanded = \<not> list_ex (\<lambda>seen. same_value_zero h seen queryEditorId) expandedTables;
          let expandedTables' = (if expanded then expandedTables @ [queryEditorId] else expandedTables);
          tableId \<leftarrow> get_prop h table ''id'';
          key \<leftarrow> to_key h tableId;
          existing \<leftarrow> get_prop h (JObj tables) key;
          Some (expandedTables',
                define_prop (spread [] (JObj merged)) key
                  (JObj (define_prop (spread (spread [] existing) table) ''expanded'' (JBool expanded))))
        })"

definition merge_tables :: "'n host \<Rightarrow> 'n props \<Rightarrow> 'n jsval list \<Rightarrow> 'n props option" where
  "merge_tables h tables legacy =
     map_option snd (propagate (forEach (merge_table h tables) legacy ([], tables)))"

text \<open>
  The assignment \<^verbatim>\<open>obj[k] = v\<close> differs from the definition of a property in an object
  literal at one key. \<^verbatim>\<open>Object.prototype\<close> has the accessor \<^verbatim>\<open>__proto__\<close>: when neither the
  object nor a prototype before \<^verbatim>\<open>Object.prototype\<close> has a property \<^verbatim>\<open>__proto__\<close> of its own,
  the assignment calls the setter, which makes \<open>v\<close> the prototype of the object if \<open>v\<close> is an
  object or \<^verbatim>\<open>null\<close>, does nothing otherwise, and creates no property. Under every other
  key, and under \<^verbatim>\<open>__proto__\<close> when a data property of that name is found first, the own
  property is written or created; the properties of the prototypes are all writable.

  An object that is assigned to is therefore the pair of its own properties and its
  prototype: \<open>None\<close> is \<^verbatim>\<open>Object.prototype\<close>, the prototype of every object that a literal
  or \<^verbatim>\<open>JSON.parse\<close> creates, and \<open>Some p\<close> is the value \<open>p\<close>, itself such an object, an
  array or \<^verbatim>\<open>null\<close>.
\<close>

definition reaches_setter :: "'n jsval option \<Rightarrow> bool" where
  "reaches_setter proto =
     (case proto of
        None \<Rightarrow> True
      | Some JNull \<Rightarrow> False
      | Some p \<Rightarrow> own_prop p ''__proto__'' = None)"

definition set_prototype :: "'n jsval option \<Rightarrow> 'n jsval \<Rightarrow> 'n jsval option" where
  "set_prototype proto v =
     (case v of JObj _ \<Rightarrow> Some v | JArr _ \<Rightarrow> Some v | JNull \<Rightarrow> Some v | _ \<Rightarrow> proto)"

definition assign ::
  "'n props \<times> 'n jsval option \<Rightarrow> string \<Rightarrow> 'n jsval \<Rightarrow> 'n props \<times> 'n jsval option" where
  "assign obj k v =
     (case obj of (ps, proto) \<Rightarrow>
        if k = ''__proto__'' \<and> map_of ps k = None \<and> reaches_setter proto
        then (ps, set_prototype proto v)
        else (define_prop ps k v, proto))"

text \<open>
  The body of \<^verbatim>\<open>Object.values(sqlLab.queries).forEach\<close>, on the object \<^verbatim>\<open>queries\<close> with its
  prototype.
\<close>

definition merge_query ::
  "'n host \<Rightarrow> 'n jsval \<Rightarrow> 'n props \<times> 'n jsval option \<Rightarrow> ('n props \<times> 'n jsval option) option" where
  "merge_query h query queries =
     do {
       queryId \<leftarrow> get_prop h query ''id'';
       key \<leftarrow> to_key h queryId;
       Some (assign queries key
               (JObj (define_prop (spread [] query) ''inLocalStorage'' (JBool True))))
     }"

text \<open>The \<^verbatim>\<open>else\<close> branch of the \<^verbatim>\<open>try\<close> block, statement by statement.\<close>

definition set_unsaved :: "'n host \<Rightarrow> 'n jsval \<Rightarrow> 'n vars \<Rightarrow> 'n vars completion" where
  "set_unsaved h sqlLab vars =
     attempt vars (do {
       unsaved \<leftarrow> get_prop h sqlLab ''unsavedQueryEditor'';
       Some (vars\<lparr>v_unsavedQueryEditor := js_or h unsaved (JObj [])\<rparr>)
     })"

definition merge_editors :: "'n host \<Rightarrow> 'n jsval \<Rightarrow> 'n vars \<Rightarrow> 'n vars completion" where
  "merge_editors h sqlLab vars =
     (case Option.bind (get_prop h sqlLab ''queryEditors'') array_elems of
        None \<Rightarrow> Abrupt vars
      | Some qes \<Rightarrow>
          forEach (\<lambda>qe vs. map_option (\<lambda>queryEditors. vs\<lparr>v_queryEditors := queryEditors\<rparr>)
                     (merge_editor h (v_unsavedQueryEditor vs) qe (v_queryEditors vs)))
            qes vars)"

definition assign_tables :: "'n host \<Rightarrow> 'n jsval \<Rightarrow> 'n vars \<Rightarrow> 'n vars completion" where
  "assign_tables h sqlLab vars =
     attempt vars (do {
       legacy \<leftarrow> get_prop h sqlLab ''tables'';
       elems \<leftarrow> array_elems legacy;
       tables \<leftarrow> merge_tables h (v_tables vars) elems;
       Some (vars\<lparr>v_tables := tables\<rparr>)
     })"

text \<open>
  The loop over the legacy queries. The object \<^verbatim>\<open>queries\<close> was created by a literal, so
  its prototype is \<^verbatim>\<open>Object.prototype\<close> when the loop starts; nothing but the assignment
  of the loop depends on it.
\<close>

definition merge_queries :: "'n host \<Rightarrow> 'n jsval \<Rightarrow> 'n vars \<Rightarrow> 'n vars completion" where
  "merge_queries h sqlLab vars =
     (case Option.bind (get_prop h sqlLab ''queries'') Object_values of
        None \<Rightarrow> Abrupt vars
      | Some legacy \<Rightarrow>
          (case forEach (merge_query h) legacy (v_queries vars, None) of
             Normal queries \<Rightarrow> Normal (vars\<lparr>v_queries := fst queries\<rparr>)
           | Abrupt queries \<Rightarrow> Abrupt (vars\<lparr>v_queries := fst queries\<rparr>)))"

definition push_tabHistory :: "'n host \<Rightarrow> 'n jsval \<Rightarrow> 'n vars \<Rightarrow> 'n vars completion" where
  "push_tabHistory h sqlLab vars =
     attempt vars (do {
       legacy \<leftarrow> get_prop h sqlLab ''tabHistory'';
       elems \<leftarrow> iterate legacy;
       Some (vars\<lparr>v_tabHistory := v_tabHistory vars @ elems\<rparr>)
     })"

definition legacy_merge :: "'n host \<Rightarrow> 'n jsval \<Rightarrow> 'n vars \<Rightarrow> 'n vars completion" where
  "legacy_merge h sqlLab vars =
     and_then (and_then (and_then (and_then
       (set_unsaved h sqlLab vars)
       (merge_editors h sqlLab))
       (assign_tables h sqlLab))
       (merge_queries h sqlLab))
       (push_tabHistory h sqlLab)"

text \<open>
  The \<^verbatim>\<open>try\<close> block. The item is read and parsed three times; nothing changes the store
  in between and \<^verbatim>\<open>JSON.parse\<close> is a function of its argument, so one reading stands for
  the three. The empty string is falsy, as \<^verbatim>\<open>null\<close> is.
\<close>

definition try_block :: "'n host \<Rightarrow> 'n vars \<Rightarrow> 'n vars completion" where
  "try_block h vars =
     (case getItem (v_localStorage vars) of
        None \<Rightarrow> Abrupt vars
      | Some None \<Rightarrow> Normal vars
      | Some (Some redux) \<Rightarrow>
          if redux = [] then Normal vars
          else
            (case Option.bind (h_JSON_parse h redux) (\<lambda>parsed. get_prop h parsed ''sqlLab'') of
               None \<Rightarrow> Abrupt vars
             | Some sqlLab \<Rightarrow>
                 if \<not> truthy h sqlLab then Normal vars
                 else
                   (case Option.bind (get_prop h sqlLab ''queryEditors'')
                           (\<lambda>qes. get_prop h qes ''length'') of
                      None \<Rightarrow> Abrupt vars
                    | Some len \<Rightarrow>
                        if strict_eq h len (JNum (h_of_nat h 0))
                        then Normal (vars\<lparr>v_localStorage := removeItem (v_localStorage vars)\<rparr>)
                        else legacy_merge h sqlLab vars)))"

subsection \<open>The state returned\<close>

text \<open>The callback of \<^verbatim>\<open>Object.entries(queries).map\<close>.\<close>

definition coerce_Dttm :: "'n host \<Rightarrow> string \<Rightarrow> 'n jsval \<Rightarrow> 'n jsval option" where
  "coerce_Dttm h k query =
     do {
       dttm \<leftarrow> get_prop h query k;
       if truthy h dttm
       then do { n \<leftarrow> h_Number h dttm; Some (JObj (object [(k, n)])) }
       else Some dttm
     }"

definition convert_query :: "'n host \<Rightarrow> string \<times> 'n jsval \<Rightarrow> (string \<times> 'n jsval) option" where
  "convert_query h entry =
     (case entry of (queryId, query) \<Rightarrow>
        do {
          startDttm \<leftarrow> coerce_Dttm h ''startDttm'' query;
          endDttm \<leftarrow> coerce_Dttm h ''endDttm'' query;
          Some (queryId, JObj (spread (spread (spread [] query) startDttm) endDttm))
        })"

text \<open>\<^verbatim>\<open>Object.fromEntries(Object.entries(queries).map(...))\<close>\<close>

definition convert_queries :: "'n host \<Rightarrow> 'n props \<Rightarrow> 'n props option" where
  "convert_queries h queries =
     map_option (define_all []) (those (map (convert_query h) (own_props (JObj queries))))"

record 'n sqlLab_state =
  activeSouthPaneTab :: "'n jsval"
  alerts :: "'n jsval"
  databases :: "'n jsval"
  offline :: "'n jsval"
  queries :: "'n props"
  queryEditors :: "'n jsval list"
  tabHistory :: "'n jsval list"
  tables :: "'n jsval list"
  queriesLastUpdate :: "'n jsval"
  user :: "'n jsval"
  unsavedQueryEditor :: "'n jsval"
  queryCostEstimates :: "'n jsval"

record 'n initial_state =
  sqlLab :: "'n sqlLab_state"
  requestedQuery :: "'n jsval"
  messageToasts :: "'n jsval"
  localStorageUsageInKilobytes :: "'n jsval"
  common :: "'n props"

text \<open>The parameters, destructured from the argument.\<close>

record 'n params =
  p_defaultDbId :: "'n jsval"
  p_common :: "'n jsval"
  p_activeTab :: "'n jsval"
  p_tabStateIds :: "'n jsval"
  p_databases :: "'n jsval"
  p_queries :: "'n jsval"
  p_requestedQuery :: "'n jsval"
  p_user :: "'n jsval"

definition destructure :: "'n host \<Rightarrow> 'n jsval \<Rightarrow> 'n params option" where
  "destructure h arg =
     do {
       defaultDbId \<leftarrow> get_prop h arg ''defaultDbId'';
       commonArg \<leftarrow> get_prop h arg ''common'';
       active_tab \<leftarrow> get_prop h arg ''active_tab'';
       tab_state_ids \<leftarrow> get_prop h arg ''tab_state_ids'';
       databasesArg \<leftarrow> get_prop h arg ''databases'';
       queriesArg \<leftarrow> get_prop h arg ''queries'';
       requested_query \<leftarrow> get_prop h arg ''requested_query'';
       userArg \<leftarrow> get_prop h arg ''user'';
       Some \<lparr>p_defaultDbId = defaultDbId,
             p_common = commonArg,
             p_activeTab = active_tab,
             p_tabStateIds = (if tab_state_ids = JUndefined then JArr [] else tab_state_ids),
             p_databases = databasesArg,
             p_queries = queriesArg,
             p_requestedQuery = requested_query,
             p_user = userArg\<rparr>
     }"

text \<open>
  The statements before the \<^verbatim>\<open>try\<close> block: the default editor and the state of the
  backend.
\<close>

definition server_state :: "'n host \<Rightarrow> 'n params \<Rightarrow> storage \<Rightarrow> 'n vars option" where
  "server_state h p store =
     do {
       defaultEditor \<leftarrow> defaultQueryEditor h (p_defaultDbId p) (p_common p);
       tabStates \<leftarrow> array_elems (p_tabStateIds p);
       editors \<leftarrow> propagate (forEach (load_tab h defaultEditor (p_activeTab p)) tabStates []);
       history \<leftarrow> initialTabHistory h (p_activeTab p);
       serverTables \<leftarrow> initialTables h (p_activeTab p);
       Some \<lparr>v_queryEditors = editors,
             v_tables = serverTables,
             v_queries = spread [] (p_queries p),
             v_tabHistory = history,
             v_unsavedQueryEditor = JObj [],
             v_localStorage = store\<rparr>
     }"

text \<open>The \<^verbatim>\<open>return\<close> statement.\<close>

definition assemble :: "'n host \<Rightarrow> 'n params \<Rightarrow> 'n vars \<Rightarrow> 'n initial_state option" where
  "assemble h p vars =
     do {
       converted \<leftarrow> convert_queries h (v_queries vars);
       flash \<leftarrow> get_prop h (js_or h (p_common p) (JObj [])) ''flash_messages'';
       toasts \<leftarrow> h_getToastsFromPyFlashMessages h (js_or h flash (JArr []));
       flash_messages \<leftarrow> get_prop h (p_common p) ''flash_messages'';
       conf \<leftarrow> get_prop h (p_common p) ''conf'';
       Some \<lparr>sqlLab =
               \<lparr>activeSouthPaneTab = JStr ''Results'',
                alerts = JArr [],
                databases = p_databases p,
                offline = JBool False,
                queries = converted,
                queryEditors = map snd (own_props (JObj (v_queryEditors vars))),
                tabHistory = dedupeTabHistory h (v_tabHistory vars),
                tables = map snd (own_props (JObj (v_tables vars))),
                queriesLastUpdate = h_Date_now h,
                user = p_user p,
                unsavedQueryEditor = v_unsavedQueryEditor vars,
                queryCostEstimates = JObj []\<rparr>,
             requestedQuery = p_requestedQuery p,
             messageToasts = toasts,
             localStorageUsageInKilobytes = JNum (h_of_nat h 0),
             common = object [(''flash_messages'', flash_messages), (''conf'', conf)]\<rparr>
     }"

text \<open>
  The function: its result, \<open>None\<close> when it throws, and the store it leaves behind.
\<close>

definition getInitialState ::
  "'n host \<Rightarrow> 'n jsval \<Rightarrow> storage \<Rightarrow> 'n initial_state option \<times> storage" where
  "getInitialState h arg store =
     (case Option.bind (destructure h arg) (\<lambda>p. map_option (Pair p) (server_state h p store)) of
        None \<Rightarrow> (None, store)
      | Some (p, vars0) \<Rightarrow>
          (let vars = catch (try_block h vars0) in (assemble h p vars, v_localStorage vars)))"

section \<open>The argument that the function expects\<close>











section \<open>A host for the examples\<close>

text \<open>
  The examples are run on a host whose numbers are the integers and \<^verbatim>\<open>NaN\<close>. Its
  \<^verbatim>\<open>JSON.parse\<close> knows the texts of the table \<open>parsed\<close> and rejects any other. Its \<^verbatim>\<open>Number\<close>
  throws where that of JavaScript does: an array or an object is converted to a string
  first, which fails on an object with a property \<^verbatim>\<open>toString\<close> of its own. The number of
  a string is that of JavaScript on the empty string and on decimal numerals, and \<^verbatim>\<open>NaN\<close>
  on every other string (which is not JavaScript's answer on all of them; the examples
  convert no such string).
\<close>

datatype number = NaN | Finite int

definition number_of_string :: "string \<Rightarrow> number" where
  "number_of_string s =
     (if s = [] then Finite 0
      else if digits (numeral_value s) = s then Finite (int (numeral_value s)) else NaN)"

definition example_host :: "(string \<times> number jsval) list \<Rightarrow> number host" where
  "example_host parsed =
     (let printer =
        \<lparr>h_truthy = (\<lambda>n. case n of NaN \<Rightarrow> False | Finite i \<Rightarrow> i \<noteq> 0),
         h_strict_eq = (\<lambda>n m. n \<noteq> NaN \<and> n = m),
         h_same_value_zero = (=),
         h_to_string = (\<lambda>n. case n of
                               NaN \<Rightarrow> ''NaN''
                             | Finite i \<Rightarrow> if i < 0 then CHR ''-'' # digits (nat (- i))
                                           else digits (nat i)),
         h_of_nat = (\<lambda>k. Finite (int k)),
         h_Number = (\<lambda>v. None),
         h_JSON_parse = map_of parsed,
         h_Date_now = JNum (Finite 0),
         h_t = JStr,
         h_getToastsFromPyFlashMessages = (\<lambda>flash. Some (JArr []))\<rparr>
      in printer
        \<lparr>h_Number :=
           (\<lambda>v. case v of
                  JUndefined \<Rightarrow> Some (JNum NaN)
                | JNull \<Rightarrow> Some (JNum (Finite 0))
                | JBool b \<Rightarrow> Some (JNum (Finite (if b then 1 else 0)))
                | JNum n \<Rightarrow> Some (JNum n)
                | JStr s \<Rightarrow> Some (JNum (number_of_string s))
                | _ \<Rightarrow> map_option (\<lambda>s. JNum (number_of_string s)) (toString printer v))\<rparr>)"

section \<open>Properties of objects\<close>

lemma map_of_rev_distinct:
  assumes "distinct (map fst xs)"
  shows "map_of (rev xs) = map_of xs"
proof (rule ext)
  fix k
  have d: "distinct (map fst (rev xs))" using assms by (simp add: rev_map [symmetric])
  show "map_of (rev xs) k = map_of xs k"
  proof (cases "map_of xs k")
    case None
    then have "k \<notin> fst ` set xs" by (simp add: map_of_eq_None_iff)
    then have "k \<notin> fst ` set (rev xs)" by simp
    then have "map_of (rev xs) k = None" by (simp add: map_of_eq_None_iff)
    with None show ?thesis by simp
  next
    case (Some v)
    then have "(k, v) \<in> set (rev xs)" using assms by (simp add: map_of_eq_Some_iff)
    then have "map_of (rev xs) k = Some v" using d by (simp add: map_of_eq_Some_iff)
    with Some show ?thesis by simp
  qed
qed

lemma set_insert_index: "set (insert_index i k v ps) = insert (k, v) (set ps)"
  by (induction ps) (auto split: option.splits if_splits)

lemma map_of_insert_index:
  "map_of ps k = None \<Longrightarrow> map_of (insert_index i k v ps) = (map_of ps)(k \<mapsto> v)"
proof (induction ps)
  case Nil
  then show ?case by simp
next
  case (Cons p ps)
  obtain k' v' where p: "p = (k', v')" by (cases p)
  from Cons.prems p have ne: "k' \<noteq> k" and none: "map_of ps k = None"
    by (auto split: if_splits)
  from Cons.IH [OF none] ne p show ?case
    by (auto split: option.splits simp: fun_upd_twist)
qed

lemma distinct_insert_index:
  "distinct (map fst ps) \<Longrightarrow> k \<notin> fst ` set ps \<Longrightarrow> distinct (map fst (insert_index i k v ps))"
proof (induction ps)
  case Nil
  then show ?case by simp
next
  case (Cons p ps)
  obtain k' v' where p: "p = (k', v')" by (cases p)
  from Cons.prems p have IH: "distinct (map fst (insert_index i k v ps))"
    by (intro Cons.IH) auto
  from Cons.prems p IH show ?case
    by (auto split: option.splits simp: set_insert_index)
qed

lemma map_of_define_prop [simp]: "map_of (define_prop ps k v) = (map_of ps)(k \<mapsto> v)"
  by (auto simp: define_prop_def update_conv' map_of_insert_index split: option.splits)

lemma distinct_define_prop:
  "distinct (map fst ps) \<Longrightarrow> distinct (map fst (define_prop ps k v))"
  by (auto simp: define_prop_def distinct_update distinct_insert_index map_of_eq_None_iff
      split: option.splits)

lemma map_of_define_all: "map_of (define_all ps kvs) = map_of ps ++ map_of (rev kvs)"
proof (induction kvs arbitrary: ps)
  case Nil
  then show ?case by (simp add: define_all_def)
next
  case (Cons kv kvs)
  obtain k v where kv: "kv = (k, v)" by (cases kv)
  have "define_all ps (kv # kvs) = define_all (define_prop ps k v) kvs"
    by (simp add: define_all_def kv)
  then show ?case
    by (auto simp: Cons.IH kv map_of_append map_add_def fun_eq_iff split: option.splits)
qed

lemma distinct_define_all:
  "distinct (map fst ps) \<Longrightarrow> distinct (map fst (define_all ps kvs))"
proof (induction kvs arbitrary: ps)
  case Nil
  then show ?case by (simp add: define_all_def)
next
  case (Cons kv kvs)
  obtain k v where kv: "kv = (k, v)" by (cases kv)
  have "define_all ps (kv # kvs) = define_all (define_prop ps k v) kvs"
    by (simp add: define_all_def kv)
  with Cons show ?case by (simp add: distinct_define_prop)
qed

lemma distinct_own_props [simp]: "distinct (map fst (own_props v))"
  by (simp add: own_props_def distinct_define_all)

lemma distinct_object [simp]: "distinct (map fst (object kvs))"
  by (simp add: object_def distinct_define_all)

lemma distinct_spread: "distinct (map fst ps) \<Longrightarrow> distinct (map fst (spread ps v))"
  by (simp add: spread_def distinct_define_all)

lemma map_of_spread: "map_of (spread ps v) = map_of ps ++ map_of (own_props v)"
  by (simp add: spread_def map_of_define_all map_of_rev_distinct)

lemma map_of_object: "map_of (object kvs) = map_of (rev kvs)"
  by (simp add: object_def map_of_define_all)

lemma own_props_JObj_distinct:
  "distinct (map fst ps) \<Longrightarrow> map_of (own_props (JObj ps)) = map_of ps"
  by (simp add: own_props_def map_of_define_all map_of_rev_distinct)

subsection \<open>Array indices\<close>

text \<open>A key that does not start with a digit is no array index.\<close>

lemma digit_in: "d < 10 \<Longrightarrow> digit d \<in> set ''0123456789''"
proof -
  assume "d < 10"
  then have "d \<in> {0, 1, 2, 3, 4, 5, 6, 7, 8, 9}" by auto
  then show ?thesis by (auto simp: digit_def)
qed

lemma digits_chars: "digits n \<noteq> [] \<and> set (digits n) \<subseteq> set ''0123456789''"
proof (induction n rule: digits.induct)
  case (1 n)
  show ?case
  proof (cases "n < 10")
    case True
    then show ?thesis using digit_in [of n] by (subst digits.simps, subst digits.simps) simp
  next
    case False
    have "n mod 10 < 10" by simp
    from digit_in [OF this] 1 [OF False] False show ?thesis
      by (subst digits.simps, subst digits.simps) simp
  qed
qed

lemma array_index_None [simp]:
  assumes "c \<notin> set ''0123456789''"
  shows "array_index (c # r) = None"
proof -
  have "digits n \<noteq> c # r" for n
  proof
    assume "digits n = c # r"
    then have "c \<in> set (digits n)" by simp
    with digits_chars [of n] assms show False by blast
  qed
  then show ?thesis by (simp add: array_index_def Let_def)
qed

subsection \<open>Reading and spreading\<close>

lemma get_prop_Some_iff: "(get_prop h v k \<noteq> None) = (v \<noteq> JUndefined \<and> v \<noteq> JNull)"
  by (cases v) simp_all


lemma own_prop_eq: "own_prop v = map_of (own_props v)"
  by (rule ext) (simp add: own_prop_def)

lemma own_prop_object_literal: "own_prop (JObj (object kvs)) = map_of (rev kvs)"
  by (rule ext) (simp add: own_prop_def own_props_JObj_distinct map_of_object)

lemma map_of_spread_empty [simp]: "map_of (spread [] v) = own_prop v"
  by (rule ext) (simp add: map_of_spread own_prop_def)

lemma own_props_falsy: "\<not> truthy h d \<Longrightarrow> own_props d = []"
  by (cases d) (simp_all add: own_props_def define_all_def)

lemma spread_falsy [simp]: "\<not> truthy h d \<Longrightarrow> spread ps d = ps"
  by (simp add: spread_def own_props_falsy define_all_def)

subsection \<open>Keys and entries\<close>

lemma keys_define_all: "fst ` set (define_all ps kvs) = fst ` set ps \<union> fst ` set kvs"
proof -
  have "dom (map_of (define_all ps kvs)) = dom (map_of ps) \<union> dom (map_of (rev kvs))"
    by (simp add: map_of_define_all Un_commute)
  then show ?thesis by (simp add: dom_map_of_conv_image_fst)
qed

lemma keys_own_props: "fst ` set (own_props v) = fst ` set (listed v)"
  by (simp add: own_props_def keys_define_all)

lemma own_prop_None_iff: "(own_prop v k = None) = (k \<notin> fst ` set (listed v))"
  by (simp add: own_prop_def map_of_eq_None_iff keys_own_props)

lemma digits_not_name:
  assumes "c \<notin> set ''0123456789''"
  shows "digits n \<noteq> c # r"
proof
  assume "digits n = c # r"
  then have "c \<in> set (digits n)" by simp
  with digits_chars [of n] assms show False by blast
qed

lemma name_not_index:
  assumes "c \<notin> set ''0123456789''"
  shows "c # r \<notin> fst ` set (zip (map digits ns) ys)"
proof
  assume "c # r \<in> fst ` set (zip (map digits ns) ys)"
  then have "c # r \<in> set (map digits ns)" by (auto dest: set_zip_leftD)
  then obtain n where "digits n = c # r" by auto
  with digits_not_name [OF assms] show False by blast
qed

lemma own_prop_of_array:
  assumes "c \<notin> set ''0123456789''"
  shows "own_prop (JArr xs) (c # r) = None" and "own_prop (JStr s) (c # r) = None"
  by (simp_all add: own_prop_None_iff name_not_index [OF assms])

lemma own_prop_of_primitive [simp]:
  "own_prop JUndefined k = None" "own_prop JNull k = None"
  "own_prop (JBool b) k = None" "own_prop (JNum n) k = None"
  by (simp_all add: own_prop_None_iff)

lemma set_define_prop: "set (define_prop ps k v) \<subseteq> insert (k, v) (set ps)"
proof -
  have "set (AList.update k v qs) \<subseteq> insert (k, v) (set qs)" for qs :: "(string \<times> 'a jsval) list"
    by (induction qs) auto
  then show ?thesis
    by (auto simp: define_prop_def set_insert_index split: option.splits)
qed

lemma set_define_all: "set (define_all ps kvs) \<subseteq> set ps \<union> set kvs"
proof (induction kvs arbitrary: ps)
  case Nil
  then show ?case by (simp add: define_all_def)
next
  case (Cons kv kvs)
  obtain k v where kv: "kv = (k, v)" by (cases kv)
  have "define_all ps (kv # kvs) = define_all (define_prop ps k v) kvs"
    by (simp add: define_all_def kv)
  with Cons.IH [of "define_prop ps k v"] set_define_prop [of ps k v] show ?case
    by (auto simp: kv)
qed

lemma set_own_props_JObj: "set (own_props (JObj ps)) \<subseteq> set ps"
  using set_define_all [of "[]" ps] by (simp add: own_props_def)

subsection \<open>Evaluation on the host of the examples\<close>

lemma example_host_simps [simp]:
  "h_truthy (example_host parsed) (Finite i) = (i \<noteq> 0)"
  "h_truthy (example_host parsed) NaN = False"
  "h_strict_eq (example_host parsed) n m = (n \<noteq> NaN \<and> n = m)"
  "h_same_value_zero (example_host parsed) n m = (n = m)"
  "h_of_nat (example_host parsed) k = Finite (int k)"
  "h_Number (example_host parsed) (JNum n) = Some (JNum n)"
  "h_JSON_parse (example_host parsed) s = map_of parsed s"
  "h_Date_now (example_host parsed) = JNum (Finite 0)"
  "h_t (example_host parsed) s = JStr s"
  "h_getToastsFromPyFlashMessages (example_host parsed) flash = Some (JArr [])"
  by (simp_all add: example_host_def Let_def)

lemma example_host_Number_string:
  "h_Number (example_host parsed) (JStr s) =
     Some (JNum (if s = [] then Finite 0
                 else if digits (numeral_value s) = s
                 then Finite (int (numeral_value s)) else NaN))"
  by (simp add: example_host_def Let_def number_of_string_def)

lemma example_host_Number_object:
  "h_Number (example_host parsed) (JObj ps) = None \<longleftrightarrow> ''toString'' \<in> fst ` set ps"
  by (simp add: example_host_def Let_def)

text \<open>The array indices and the numbers of the examples.\<close>

lemma example_indices [simp]:
  "array_index ''1'' = Some 1"
  "array_index ''2'' = Some 2"
  "array_index ''10'' = Some 10"
  "array_index ''11'' = Some 11"
  by (simp_all add: array_index_def numeral_value_def digits.simps digit_def)

lemma example_numbers [simp]:
  "h_to_string (example_host parsed) (Finite 1) = ''1''"
  "h_to_string (example_host parsed) (Finite 2) = ''2''"
  "h_to_string (example_host parsed) (Finite 10) = ''10''"
  "h_to_string (example_host parsed) (Finite 11) = ''11''"
  by (simp_all add: example_host_def Let_def digits.simps digit_def)

text \<open>The equations that evaluate the model on a concrete input.\<close>

lemmas eval_props = own_props_def own_prop_def define_all_def define_prop_def spread_def object_def

lemmas eval_values = js_or_def js_and_def strict_eq_def same_value_zero_def optional_chain_def
  last_or_undefined_def concat_value_def

text \<open>
  A computation is evaluated from its first step on: the continuation of a bind and the
  branches of a case are left alone until the value they depend on is known.
\<close>

lemma bind_weak_cong: "x = y \<Longrightarrow> Option.bind x f = Option.bind y f"
  by simp

lemmas eval_cong = bind_weak_cong option.case_cong_weak completion.case_cong_weak
  prod.case_cong_weak storage.case_cong_weak

text \<open>The definitions of the program, for the evaluation of \<open>getInitialState\<close>.\<close>

lemmas eval_program = getInitialState_def destructure_def server_state_def defaultQueryEditor_def
  load_tab_def activeQueryEditor_def dummyQueryEditor_def initialTabHistory_def initialTables_def
  has_description_def load_table_def try_block_def legacy_merge_def set_unsaved_def
  merge_editors_def merge_editor_def merged_editor_def assign_tables_def merge_tables_def
  merge_table_def merge_queries_def merge_query_def assign_def reaches_setter_def
  set_prototype_def push_tabHistory_def assemble_def convert_queries_def convert_query_def
  coerce_Dttm_def dedupeTabHistory_def

section \<open>Properties of dedupeTabHistory\<close>

lemma last_or_undefined_simps [simp]:
  "last_or_undefined [] = JUndefined"
  "last_or_undefined (xs @ [x]) = x"
  by (simp_all add: last_or_undefined_def)

text \<open>
  On a list without arrays \<^verbatim>\<open>concat\<close> appends one element at each step, and the result
  has no other elements than the input.
\<close>

lemma concat_value_plain: "\<forall>elems. v \<noteq> JArr elems \<Longrightarrow> concat_value result v = result @ [v]"
  by (cases v) (simp_all add: concat_value_def)

lemma dedupe_step_plain:
  assumes "\<forall>elems. JArr elems \<notin> set xs"
  shows "foldl (\<lambda>result tabId.
                  if strict_eq h (last_or_undefined result) tabId then result
                  else concat_value result tabId)
           acc xs
       = foldl (\<lambda>result tabId.
                  if strict_eq h (last_or_undefined result) tabId then result else result @ [tabId])
           acc xs"
  using assms
proof (induction xs arbitrary: acc)
  case Nil
  then show ?case by simp
next
  case (Cons x xs)
  from Cons.prems have "\<forall>elems. x \<noteq> JArr elems" and "\<forall>elems. JArr elems \<notin> set xs" by auto
  with Cons.IH show ?case by (simp add: concat_value_plain)
qed

lemma dedupe_step_subset:
  "set (foldl (\<lambda>result tabId.
                 if strict_eq h (last_or_undefined result) tabId then result else result @ [tabId])
          acc xs) \<subseteq> set acc \<union> set xs"
proof (induction xs arbitrary: acc)
  case Nil
  then show ?case by simp
next
  case (Cons x xs)
  show ?case using Cons [of acc] Cons [of "acc @ [x]"] by auto
qed

lemma dedupeTabHistory_plain:
  assumes "\<forall>elems. JArr elems \<notin> set xs"
  shows "dedupeTabHistory h xs
       = foldl (\<lambda>result tabId.
                  if strict_eq h (last_or_undefined result) tabId then result else result @ [tabId])
           [] xs"
  unfolding dedupeTabHistory_def using assms by (rule dedupe_step_plain)

text \<open>
  An array in the tab history is flattened, and its elements are not compared with
  each other: a second pass collapses them.
\<close>

lemma dedupeTabHistory_flattens:
  "dedupeTabHistory h [JArr [JStr ''a'', JStr ''a''], JStr ''b''] = [JStr ''a'', JStr ''a'', JStr ''b'']"
  "dedupeTabHistory h (dedupeTabHistory h [JArr [JStr ''a'', JStr ''a''], JStr ''b''])
   = [JStr ''a'', JStr ''b'']"
  by (simp_all add: dedupeTabHistory_def concat_value_def strict_eq_def last_or_undefined_def)

text \<open>
  A list in which no element is \<^verbatim>\<open>===\<close> to the one before it, and whose first element is
  not \<^verbatim>\<open>===\<close> to the last of \<open>acc\<close>, is appended to \<open>acc\<close> whole.
\<close>

lemma dedupe_step_unchanged:
  assumes "successively (\<lambda>a b. \<not> strict_eq h a b) (last_or_undefined acc # ys)"
  shows "foldl (\<lambda>result tabId.
                  if strict_eq h (last_or_undefined result) tabId then result else result @ [tabId])
           acc ys = acc @ ys"
  using assms
proof (induction ys arbitrary: acc)
  case Nil
  then show ?case by simp
next
  case (Cons y ys)
  from Cons.prems have ne: "\<not> strict_eq h (last_or_undefined acc) y"
    and rest: "successively (\<lambda>a b. \<not> strict_eq h a b) (last_or_undefined (acc @ [y]) # ys)"
    by simp_all
  from Cons.IH [OF rest] ne show ?case by simp
qed

lemma dedupe_step_successively:
  assumes "successively (\<lambda>a b. \<not> strict_eq h a b) (JUndefined # acc)"
  shows "successively (\<lambda>a b. \<not> strict_eq h a b)
           (JUndefined #
            foldl (\<lambda>result tabId.
                     if strict_eq h (last_or_undefined result) tabId then result else result @ [tabId])
              acc xs)"
  using assms
proof (induction xs arbitrary: acc)
  case Nil
  then show ?case by simp
next
  case (Cons x xs)
  show ?case
  proof (cases "strict_eq h (last_or_undefined acc) x")
    case True
    with Cons show ?thesis by simp
  next
    case False
    have "successively (\<lambda>a b. \<not> strict_eq h a b) ((JUndefined # acc) @ [x])"
      using Cons.prems False
      by (simp only: successively_append_iff) (auto simp: last_or_undefined_def)
    then have "successively (\<lambda>a b. \<not> strict_eq h a b) (JUndefined # (acc @ [x]))" by simp
    from Cons.IH [OF this] False show ?thesis by simp
  qed
qed

lemma dedupe_step_remdups_adj:
  assumes "acc \<noteq> []"
    and "\<forall>x \<in> insert (last acc) (set xs). \<forall>y \<in> insert (last acc) (set xs).
           strict_eq h x y = (x = y)"
  shows "foldl (\<lambda>result tabId.
                  if strict_eq h (last_or_undefined result) tabId then result else result @ [tabId])
           acc xs = butlast acc @ remdups_adj (last acc # xs)"
  using assms
proof (induction xs arbitrary: acc)
  case Nil
  then show ?case by simp
next
  case (Cons x xs)
  let ?step = "\<lambda>result tabId.
    if strict_eq h (last_or_undefined result) tabId then result else result @ [tabId]"
  from Cons.prems have eq: "strict_eq h (last acc) x = (last acc = x)" by simp
  from Cons.prems(1) have lou: "last_or_undefined acc = last acc"
    by (simp add: last_or_undefined_def)
  show ?case
  proof (cases "last acc = x")
    case True
    have "foldl ?step acc (x # xs) = foldl ?step acc xs" using True eq lou by simp
    also have "\<dots> = butlast acc @ remdups_adj (last acc # xs)"
      using Cons.prems by (intro Cons.IH) auto
    finally show ?thesis using True by simp
  next
    case False
    have "foldl ?step acc (x # xs) = foldl ?step (acc @ [x]) xs" using False eq lou by simp
    also have "\<dots> = butlast (acc @ [x]) @ remdups_adj (last (acc @ [x]) # xs)"
      using Cons.prems by (intro Cons.IH) auto
    finally show ?thesis using False Cons.prems(1) by simp
  qed
qed

text \<open>
  C7. On a tab history of identifiers (values that \<^verbatim>\<open>===\<close> compares as equality does,
  none of them \<^verbatim>\<open>undefined\<close>: strings, in this program) \<open>dedupeTabHistory\<close> collapses
  exactly the runs of consecutive duplicates and keeps repeats that are not
  consecutive: its result is \<open>remdups_adj\<close> of the input. The witness is the input
  \<open>[a, a, b, b, b, a]\<close>, with the output \<open>[a, b, a]\<close>.
\<close>

theorem dedupeTabHistory_collapses:
  assumes "JUndefined \<notin> set xs"
    and "\<forall>x \<in> set xs. \<forall>y \<in> set xs. strict_eq h x y = (x = y)"
  shows "dedupeTabHistory h xs = remdups_adj xs"
proof -
  have plain: "\<forall>elems. JArr elems \<notin> set xs"
  proof (intro allI notI)
    fix elems
    assume "JArr elems \<in> set xs"
    with assms(2) have "strict_eq h (JArr elems) (JArr elems)" by blast
    then show False by (simp add: strict_eq_def)
  qed
  show ?thesis
  proof (cases xs)
    case Nil
    then show ?thesis by (simp add: dedupeTabHistory_def)
  next
    case (Cons x r)
    let ?step = "\<lambda>result tabId.
      if strict_eq h (last_or_undefined result) tabId then result else result @ [tabId]"
    from assms Cons have "x \<noteq> JUndefined" by auto
    then have "\<not> strict_eq h JUndefined x" by (auto simp: strict_eq_def)
    then have "dedupeTabHistory h xs = foldl ?step [x] r"
      using dedupeTabHistory_plain [OF plain, of h] by (simp add: Cons)
    also have "\<dots> = butlast [x] @ remdups_adj (last [x] # r)"
      using assms Cons by (intro dedupe_step_remdups_adj) auto
    finally show ?thesis by (simp add: Cons)
  qed
qed

theorem dedupeTabHistory_collapses_witness:
  "dedupeTabHistory (example_host [])
     [JStr ''a'', JStr ''a'', JStr ''b'', JStr ''b'', JStr ''b'', JStr ''a'']
   = [JStr ''a'', JStr ''b'', JStr ''a'']"
  using dedupeTabHistory_collapses
    [of "[JStr ''a'', JStr ''a'', JStr ''b'', JStr ''b'', JStr ''b'', JStr ''a'']" "example_host []"]
  by (simp add: strict_eq_def)

text \<open>
  C10. \<open>dedupeTabHistory\<close> is idempotent on every list of identifiers: on every list of
  primitive values (strings, numbers, booleans, \<^verbatim>\<open>null\<close>, \<^verbatim>\<open>undefined\<close>), whatever \<^verbatim>\<open>===\<close> does
  on the numbers of the host. An array or an object is not an identifier, and \<^verbatim>\<open>concat\<close>
  would flatten an array. In the witness the list has the string identifiers of the
  program, numbers and \<^verbatim>\<open>undefined\<close>.
\<close>

theorem dedupeTabHistory_idempotent:
  assumes "list_all primitive xs"
  shows "dedupeTabHistory h (dedupeTabHistory h xs) = dedupeTabHistory h xs"
proof -
  let ?step = "\<lambda>result tabId.
    if strict_eq h (last_or_undefined result) tabId then result else result @ [tabId]"
  from assms have arrays: "\<forall>elems. JArr elems \<notin> set xs" by (auto simp: list_all_iff)
  have r: "dedupeTabHistory h xs = foldl ?step [] xs"
    using arrays by (rule dedupeTabHistory_plain)
  have "set (foldl ?step [] xs) \<subseteq> set [] \<union> set xs" by (rule dedupe_step_subset)
  with arrays have plain: "\<forall>elems. JArr elems \<notin> set (foldl ?step [] xs)" by auto
  have "successively (\<lambda>a b. \<not> strict_eq h a b) (JUndefined # foldl ?step [] xs)"
    by (rule dedupe_step_successively) simp
  then have "successively (\<lambda>a b. \<not> strict_eq h a b)
               (last_or_undefined [] # foldl ?step [] xs)"
    by simp
  from dedupe_step_unchanged [OF this] have "foldl ?step [] (foldl ?step [] xs) = foldl ?step [] xs"
    by simp
  with dedupeTabHistory_plain [OF plain, of h] r show ?thesis by simp
qed

theorem dedupeTabHistory_idempotent_witness:
  "dedupeTabHistory (example_host [])
     (dedupeTabHistory (example_host [])
        [JStr ''1'', JStr ''1'', JNum (Finite 1), JNum (Finite 1), JUndefined, JStr ''x'', JStr ''x'',
         JStr ''1''])
   = dedupeTabHistory (example_host [])
       [JStr ''1'', JStr ''1'', JNum (Finite 1), JNum (Finite 1), JUndefined, JStr ''x'', JStr ''x'',
        JStr ''1'']
   \<and> dedupeTabHistory (example_host [])
       [JStr ''1'', JStr ''1'', JNum (Finite 1), JNum (Finite 1), JUndefined, JStr ''x'', JStr ''x'',
        JStr ''1'']
     = [JStr ''1'', JNum (Finite 1), JUndefined, JStr ''x'', JStr ''1'']"
proof -
  have "list_all primitive
          [JStr ''1'', JStr ''1'', JNum (Finite 1), JNum (Finite 1), JUndefined, JStr ''x'',
           JStr ''x'', JStr ''1'' :: number jsval]"
    by simp
  from dedupeTabHistory_idempotent [OF this, of "example_host []"] show ?thesis
    by (simp add: dedupeTabHistory_def concat_value_def strict_eq_def last_or_undefined_def)
qed

section \<open>Properties of the merge of the legacy queries\<close>

text \<open>
  Under every key but \<^verbatim>\<open>__proto__\<close>, and under \<^verbatim>\<open>__proto__\<close> when \<^verbatim>\<open>queries\<close> has that property
  already, the assignment of the loop writes the property.
\<close>

lemma assign_defines:
  assumes "k \<noteq> ''__proto__'' \<or> map_of ps k \<noteq> None"
  shows "assign (ps, proto) k v = (define_prop ps k v, proto)"
  using assms by (auto simp: assign_def)

lemma assign_sets_prototype:
  assumes "map_of ps ''__proto__'' = None"
  shows "assign (ps, None) ''__proto__'' (JObj stored) = (ps, Some (JObj stored))"
  using assms by (simp add: assign_def reaches_setter_def set_prototype_def)

text \<open>
  For a legacy query whose \<^verbatim>\<open>id\<close> is read as \<open>queryId\<close>, with the property key \<open>key\<close>: the
  loop body stores under \<open>key\<close> of \<^verbatim>\<open>queries\<close> an object that has the own properties of the
  legacy query and \<^verbatim>\<open>inLocalStorage: true\<close>, and nothing else. The object is the same
  whatever \<^verbatim>\<open>queries\<close> held before: a query of the server under the same key is
  overwritten whole, none of its fields is kept. The other keys of \<^verbatim>\<open>queries\<close> are
  untouched.
\<close>

lemma merge_query_stores:
  assumes "get_prop h query ''id'' = Some queryId"
    and "to_key h queryId = Some key"
    and "key \<noteq> ''__proto__'' \<or> map_of queries0 key \<noteq> None"
  shows "\<exists>stored queries1.
           (\<forall>k. map_of stored k =
                  (if k = ''inLocalStorage'' then Some (JBool True) else own_prop query k))
         \<and> merge_query h query (queries0, proto) = Some (queries1, proto)
         \<and> map_of queries1 key = Some (JObj stored)
         \<and> (\<forall>k. k \<noteq> key \<longrightarrow> map_of queries1 k = map_of queries0 k)"
proof (intro exI conjI allI)
  fix k
  show "map_of (define_prop (spread [] query) ''inLocalStorage'' (JBool True)) k =
          (if k = ''inLocalStorage'' then Some (JBool True) else own_prop query k)"
    by simp
next
  show "merge_query h query (queries0, proto) =
          Some (define_prop queries0 key
                  (JObj (define_prop (spread [] query) ''inLocalStorage'' (JBool True))), proto)"
    using assms by (simp add: merge_query_def assign_defines)
  show "map_of (define_prop queries0 key
                  (JObj (define_prop (spread [] query) ''inLocalStorage'' (JBool True)))) key
        = Some (JObj (define_prop (spread [] query) ''inLocalStorage'' (JBool True)))"
    by simp
  show "\<And>k. k \<noteq> key \<longrightarrow>
          map_of (define_prop queries0 key
                    (JObj (define_prop (spread [] query) ''inLocalStorage'' (JBool True)))) k
          = map_of queries0 k"
    by simp
qed

text \<open>
  A legacy query whose key is \<^verbatim>\<open>__proto__\<close> is not stored when \<^verbatim>\<open>queries\<close> has no such
  property: its copy becomes the prototype of \<^verbatim>\<open>queries\<close>, whose own properties are what
  they were.
\<close>

lemma merge_query_under_proto:
  assumes "get_prop h query ''id'' = Some queryId"
    and "to_key h queryId = Some ''__proto__''"
    and "map_of queries0 ''__proto__'' = None"
  shows "\<exists>stored. merge_query h query (queries0, None) = Some (queries0, Some (JObj stored))"
  using assms by (simp add: merge_query_def assign_sets_prototype)

text \<open>
  C8. The claim holds for every legacy query but one whose identifier is \<^verbatim>\<open>__proto__\<close>. The
  loop over the legacy queries assigns (\<^verbatim>\<open>queries[query.id] = ...\<close>), and the assignment
  under \<^verbatim>\<open>__proto__\<close> calls the setter of \<^verbatim>\<open>Object.prototype\<close> and creates no property; the
  loops over the legacy editors and tables define a computed property in an object
  literal (\<^verbatim>\<open>{...queryEditors, [qe.id]: ...}\<close>), which creates the property under every key.
  Here the function runs on a store whose legacy state has two queries and an editor.
  The first query, with the \<^verbatim>\<open>id\<close> of a query of the server, replaces it whole (the field
  \<^verbatim>\<open>state\<close> of the server is gone) and is tagged. The second, with the \<^verbatim>\<open>id\<close> \<^verbatim>\<open>__proto__\<close>, is
  not in the queries of the state returned, under no key. The editor has the \<^verbatim>\<open>id\<close>
  \<^verbatim>\<open>__proto__\<close> too, and is in the editors of the state returned.
\<close>

theorem legacy_query_under_proto_lost:
  "map_option (\<lambda>state. (queries (sqlLab state), queryEditors (sqlLab state)))
     (fst (getInitialState
        (example_host
           [(''legacy'', JObj [(''sqlLab'', JObj
              [(''queryEditors'', JArr [JObj [(''id'', JStr ''__proto__'')]]),
               (''tables'', JArr []),
               (''queries'', JObj
                  [(''q1'', JObj [(''id'', JStr ''q1''), (''sql'', JStr ''SELECT 1'')]),
                   (''q2'', JObj [(''id'', JStr ''__proto__''), (''sql'', JStr ''SELECT 2'')])]),
               (''tabHistory'', JArr [])])])])
        (JObj [(''common'', JObj [(''conf'', JObj [])]),
               (''queries'', JObj
                  [(''q1'', JObj [(''id'', JStr ''q1''), (''state'', JStr ''success'')])])])
        (Holds (Some ''legacy''))))
   = Some ([(''q1'', JObj [(''id'', JStr ''q1''), (''sql'', JStr ''SELECT 1''),
                          (''inLocalStorage'', JBool True)])],
           [JObj [(''id'', JStr ''__proto__''), (''name'', JUndefined),
                  (''inLocalStorage'', JBool True), (''loaded'', JBool True)]])"
  by (simp add: eval_program eval_props eval_values Let_def cong: eval_cong)

section \<open>Properties of the returned queries\<close>

lemma those_map_Some:
  "those (map f xs) = Some ys \<Longrightarrow> list_all2 (\<lambda>x y. f x = Some y) xs ys"
proof (induction xs arbitrary: ys)
  case Nil
  then show ?case by simp
next
  case (Cons x xs)
  then show ?case by (auto split: option.splits)
qed

lemma convert_query_key: "convert_query h (k, q) = Some (k1, q1) \<Longrightarrow> k1 = k"
  by (auto simp: convert_query_def split: Option.bind_splits)

lemma map_of_converted:
  assumes "list_all2 (\<lambda>x y. convert_query h x = Some y) xs ys"
  shows "map_of ys k = Option.bind (map_of xs k) (\<lambda>q. map_option snd (convert_query h (k, q)))"
  using assms
proof (induction xs ys rule: list_all2_induct)
  case Nil
  then show ?case by simp
next
  case (Cons x xs y ys)
  obtain k1 q1 where x: "x = (k1, q1)" by (cases x)
  obtain k2 q2 where y: "y = (k2, q2)" by (cases y)
  from Cons.hyps(1) x y have k: "k2 = k1" by (auto dest: convert_query_key)
  from Cons show ?case by (simp add: x y k)
qed

lemma map_fst_converted:
  assumes "list_all2 (\<lambda>x y. convert_query h x = Some y) xs ys"
  shows "map fst ys = map fst xs"
  using assms
proof (induction xs ys rule: list_all2_induct)
  case Nil
  then show ?case by simp
next
  case (Cons x xs y ys)
  then show ?case by (cases x; cases y) (auto dest: convert_query_key)
qed

lemma convert_queries_lookup:
  assumes "convert_queries h qs = Some out"
  shows "map_of out k =
           Option.bind (own_prop (JObj qs) k) (\<lambda>q. map_option snd (convert_query h (k, q)))"
proof -
  from assms obtain ys where ys: "those (map (convert_query h) (own_props (JObj qs))) = Some ys"
    and out: "out = define_all [] ys"
    by (auto simp: convert_queries_def)
  from those_map_Some [OF ys]
  have l: "list_all2 (\<lambda>x y. convert_query h x = Some y) (own_props (JObj qs)) ys" .
  have "distinct (map fst ys)" using map_fst_converted [OF l] by simp
  then have "map_of out = map_of ys"
    by (simp add: out map_of_define_all map_of_rev_distinct)
  with map_of_converted [OF l] show ?thesis by (simp add: own_prop_def)
qed

lemma coerce_Dttm_cases:
  assumes "coerce_Dttm h f query = Some c"
  shows "\<exists>d. get_prop h query f = Some d \<and>
          (if truthy h d then \<exists>n. h_Number h d = Some n \<and> c = JObj (object [(f, n)]) else c = d)"
  using assms by (auto simp: coerce_Dttm_def split: Option.bind_splits if_splits)

lemma convert_queries_total:
  assumes "convert_queries h qs = Some out"
    and "own_prop (JObj qs) k = Some q"
  shows "\<exists>c. convert_query h (k, q) = Some (k, c) \<and> map_of out k = Some c"
proof -
  from assms(1) obtain ys where ys: "those (map (convert_query h) (own_props (JObj qs))) = Some ys"
    by (auto simp: convert_queries_def)
  from those_map_Some [OF ys]
  have l: "list_all2 (\<lambda>x y. convert_query h x = Some y) (own_props (JObj qs)) ys" .
  from assms(2) have "(k, q) \<in> set (own_props (JObj qs))"
    by (auto simp: own_prop_def dest: map_of_SomeD)
  with l obtain y where "convert_query h (k, q) = Some y"
    by (induction rule: list_all2_induct) auto
  then obtain c where c: "convert_query h (k, q) = Some (k, c)"
    by (cases y) (auto dest: convert_query_key)
  from convert_queries_lookup [OF assms(1), of k] assms(2) c show ?thesis by simp
qed

lemma map_of_coerced:
  assumes "coerce_Dttm h f query = Some c"
  shows "\<exists>d. get_prop h query f = Some d
           \<and> (truthy h d \<longrightarrow> (\<exists>n. h_Number h d = Some n \<and> map_of (own_props c) = [f \<mapsto> n]))
           \<and> (\<not> truthy h d \<longrightarrow> map_of (own_props c) = Map.empty)"
proof -
  from coerce_Dttm_cases [OF assms] obtain d where d: "get_prop h query f = Some d"
    and c: "if truthy h d then \<exists>n. h_Number h d = Some n \<and> c = JObj (object [(f, n)]) else c = d"
    by blast
  show ?thesis
  proof (cases "truthy h d")
    case True
    with c obtain n where "h_Number h d = Some n" "c = JObj (object [(f, n)])" by auto
    moreover have "map_of (own_props (JObj (object [(f, n)]))) = [f \<mapsto> n]"
      using own_prop_object_literal [of "[(f, n)]"] by (simp add: own_prop_def fun_eq_iff)
    ultimately show ?thesis using d True by auto
  next
    case False
    with c have "c = d" by simp
    with False d show ?thesis by (auto simp: own_props_falsy)
  qed
qed

text \<open>
  C6. In the state returned, the query stored under \<open>queryId\<close> is the query \<open>query\<close> of the
  variable \<^verbatim>\<open>queries\<close> with its timestamps coerced: when \<^verbatim>\<open>query.startDttm\<close> is truthy
  the field is \<^verbatim>\<open>Number(query.startDttm)\<close>; when it is falsy the field is what it was, a
  missing key stays missing and nothing is coerced to zero; the same for \<^verbatim>\<open>endDttm\<close>;
  every other field is untouched. In the witness \<^verbatim>\<open>startDttm: "1690000000000"\<close> becomes
  the number, a missing \<^verbatim>\<open>startDttm\<close> stays missing and \<^verbatim>\<open>endDttm: 0\<close> stays \<open>0\<close>.
\<close>

theorem timestamps_coerced:
  assumes "assemble h p vars = Some snap"
    and "own_prop (JObj (v_queries vars)) queryId = Some query"
  shows "\<exists>startDttm endDttm converted.
           get_prop h query ''startDttm'' = Some startDttm
         \<and> get_prop h query ''endDttm'' = Some endDttm
         \<and> map_of (queries (sqlLab snap)) queryId = Some (JObj converted)
         \<and> (truthy h startDttm \<longrightarrow>
              h_Number h startDttm \<noteq> None \<and> map_of converted ''startDttm'' = h_Number h startDttm)
         \<and> (\<not> truthy h startDttm \<longrightarrow> map_of converted ''startDttm'' = own_prop query ''startDttm'')
         \<and> (truthy h endDttm \<longrightarrow>
              h_Number h endDttm \<noteq> None \<and> map_of converted ''endDttm'' = h_Number h endDttm)
         \<and> (\<not> truthy h endDttm \<longrightarrow> map_of converted ''endDttm'' = own_prop query ''endDttm'')
         \<and> (\<forall>k. k \<noteq> ''startDttm'' \<and> k \<noteq> ''endDttm'' \<longrightarrow> map_of converted k = own_prop query k)"
proof -
  from assms(1) obtain out where out: "convert_queries h (v_queries vars) = Some out"
    and snap: "queries (sqlLab snap) = out"
    by (auto simp: assemble_def split: Option.bind_splits)
  from convert_queries_total [OF out assms(2)] obtain c
    where c: "convert_query h (queryId, query) = Some (queryId, c)" and l: "map_of out queryId = Some c"
    by blast
  from c obtain s e where s: "coerce_Dttm h ''startDttm'' query = Some s"
    and e: "coerce_Dttm h ''endDttm'' query = Some e"
    and conv: "c = JObj (spread (spread (spread [] query) s) e)"
    by (auto simp: convert_query_def split: Option.bind_splits)
  from map_of_coerced [OF s] obtain ds where ds: "get_prop h query ''startDttm'' = Some ds"
    and s1: "truthy h ds \<longrightarrow> (\<exists>n. h_Number h ds = Some n \<and> map_of (own_props s) = [''startDttm'' \<mapsto> n])"
    and s2: "\<not> truthy h ds \<longrightarrow> map_of (own_props s) = Map.empty"
    by blast
  from map_of_coerced [OF e] obtain de where de: "get_prop h query ''endDttm'' = Some de"
    and e1: "truthy h de \<longrightarrow> (\<exists>n. h_Number h de = Some n \<and> map_of (own_props e) = [''endDttm'' \<mapsto> n])"
    and e2: "\<not> truthy h de \<longrightarrow> map_of (own_props e) = Map.empty"
    by blast
  have m: "map_of (spread (spread (spread [] query) s) e)
             = own_prop query ++ map_of (own_props s) ++ map_of (own_props e)"
    by (simp add: map_of_spread own_prop_eq)
  show ?thesis
  proof (intro exI conjI)
    show "get_prop h query ''startDttm'' = Some ds" by (rule ds)
    show "get_prop h query ''endDttm'' = Some de" by (rule de)
    show "map_of (queries (sqlLab snap)) queryId = Some (JObj (spread (spread (spread [] query) s) e))"
      using l snap conv by simp
    show "truthy h ds \<longrightarrow> h_Number h ds \<noteq> None \<and>
            map_of (spread (spread (spread [] query) s) e) ''startDttm'' = h_Number h ds"
      using s1 e1 e2 by (cases "truthy h de") (auto simp: m)
    show "\<not> truthy h ds \<longrightarrow>
            map_of (spread (spread (spread [] query) s) e) ''startDttm'' = own_prop query ''startDttm''"
      using s2 e1 e2 by (cases "truthy h de") (auto simp: m map_add_def)
    show "truthy h de \<longrightarrow> h_Number h de \<noteq> None \<and>
            map_of (spread (spread (spread [] query) s) e) ''endDttm'' = h_Number h de"
      using e1 by (auto simp: m)
    show "\<not> truthy h de \<longrightarrow>
            map_of (spread (spread (spread [] query) s) e) ''endDttm'' = own_prop query ''endDttm''"
      using e2 s1 s2 by (cases "truthy h ds") (auto simp: m map_add_def)
    show "\<forall>k. k \<noteq> ''startDttm'' \<and> k \<noteq> ''endDttm'' \<longrightarrow>
            map_of (spread (spread (spread [] query) s) e) k = own_prop query k"
      using s1 s2 e1 e2 by (cases "truthy h ds"; cases "truthy h de") (auto simp: m map_add_def)
  qed
qed

theorem timestamps_coerced_witness:
  "\<exists>snap q1 q2.
     assemble (example_host [])
       \<lparr>p_defaultDbId = JNull,
        p_common = JObj [(''conf'', JObj [(''DEFAULT_SQLLAB_LIMIT'', JNum (Finite 1000))])],
        p_activeTab = JUndefined, p_tabStateIds = JArr [], p_databases = JObj [],
        p_queries = JObj [], p_requestedQuery = JNull, p_user = JObj []\<rparr>
       \<lparr>v_queryEditors = [], v_tables = [],
        v_queries = [(''q1'', JObj [(''id'', JStr ''q1''), (''startDttm'', JStr ''1690000000000'')]),
                     (''q2'', JObj [(''id'', JStr ''q2''), (''endDttm'', JNum (Finite 0))])],
        v_tabHistory = [], v_unsavedQueryEditor = JObj [], v_localStorage = Holds None\<rparr>
       = Some snap
   \<and> map_of (queries (sqlLab snap)) ''q1'' = Some (JObj q1)
   \<and> map_of q1 ''startDttm'' = Some (JNum (Finite 1690000000000))
   \<and> map_of q1 ''endDttm'' = None
   \<and> map_of (queries (sqlLab snap)) ''q2'' = Some (JObj q2)
   \<and> map_of q2 ''startDttm'' = None
   \<and> map_of q2 ''endDttm'' = Some (JNum (Finite 0))"
proof -
  let ?h = "example_host []"
  let ?p = "\<lparr>p_defaultDbId = JNull,
        p_common = JObj [(''conf'', JObj [(''DEFAULT_SQLLAB_LIMIT'', JNum (Finite 1000))])],
        p_activeTab = JUndefined, p_tabStateIds = JArr [], p_databases = JObj [],
        p_queries = JObj [], p_requestedQuery = JNull, p_user = JObj []\<rparr> :: number params"
  let ?query1 = "JObj [(''id'', JStr ''q1''), (''startDttm'', JStr ''1690000000000'')] :: number jsval"
  let ?query2 = "JObj [(''id'', JStr ''q2''), (''endDttm'', JNum (Finite 0))] :: number jsval"
  let ?vars = "\<lparr>v_queryEditors = [], v_tables = [],
        v_queries = [(''q1'', ?query1), (''q2'', ?query2)],
        v_tabHistory = [], v_unsavedQueryEditor = JObj [], v_localStorage = Holds None\<rparr>"
  have n: "h_Number ?h (JStr ''1690000000000'') = Some (JNum (Finite 1690000000000))"
    by (simp add: example_host_Number_string numeral_value_def digits.simps digit_def)
  have "assemble ?h ?p ?vars \<noteq> None"
    by (simp add: assemble_def convert_queries_def convert_query_def coerce_Dttm_def
        eval_props eval_values n)
  then obtain snap where snap: "assemble ?h ?p ?vars = Some snap" by blast
  have o1: "own_prop (JObj (v_queries ?vars)) ''q1'' = Some ?query1"
    and o2: "own_prop (JObj (v_queries ?vars)) ''q2'' = Some ?query2"
    by (simp_all add: eval_props)
  have g1: "get_prop ?h ?query1 ''startDttm'' = Some (JStr ''1690000000000'')"
    "get_prop ?h ?query1 ''endDttm'' = Some JUndefined"
    "own_prop ?query1 ''endDttm'' = None"
    and g2: "get_prop ?h ?query2 ''startDttm'' = Some JUndefined"
    "get_prop ?h ?query2 ''endDttm'' = Some (JNum (Finite 0))"
    "own_prop ?query2 ''startDttm'' = None"
    "own_prop ?query2 ''endDttm'' = Some (JNum (Finite 0))"
    by (simp_all add: eval_props)
  have t: "truthy ?h (JStr ''1690000000000'')" "\<not> truthy ?h JUndefined" "\<not> truthy ?h (JNum (Finite 0))"
    by simp_all
  from timestamps_coerced [OF snap o1] g1 n t obtain q1
    where "map_of (queries (sqlLab snap)) ''q1'' = Some (JObj q1)"
      "map_of q1 ''startDttm'' = Some (JNum (Finite 1690000000000))" "map_of q1 ''endDttm'' = None"
    by auto
  moreover from timestamps_coerced [OF snap o2] g2 t obtain q2
    where "map_of (queries (sqlLab snap)) ''q2'' = Some (JObj q2)"
      "map_of q2 ''startDttm'' = None" "map_of q2 ''endDttm'' = Some (JNum (Finite 0))"
    by auto
  ultimately show ?thesis using snap by blast
qed

section \<open>Properties of the merge of the legacy editors\<close>

text \<open>
  The fields of the object that the loop over \<^verbatim>\<open>sqlLab.queryEditors\<close> builds, in the order
  of precedence: the two flags, the unsaved editor when its \<^verbatim>\<open>id\<close> is \<^verbatim>\<open>===\<close> to that of
  the legacy editor, the name \<^verbatim>\<open>qe.title || qe.name\<close>, the legacy editor, the editor that
  was there.
\<close>

lemma map_of_merged_editor:
  assumes "get_prop h qe ''title'' = Some title"
    and "get_prop h qe ''name'' = Some name"
    and "get_prop h qe ''id'' = Some qeId"
    and "get_prop h unsaved ''id'' = Some unsavedId"
  shows "\<exists>merged. merged_editor h unsaved existing qe = Some merged
           \<and> distinct (map fst merged)
           \<and> (\<forall>k. map_of merged k =
                 (if k = ''inLocalStorage'' \<or> k = ''loaded'' then Some (JBool True)
                  else if strict_eq h unsavedId qeId \<and> own_prop unsaved k \<noteq> None
                       then own_prop unsaved k
                  else if k = ''name'' then Some (js_or h title name)
                  else if own_prop qe k \<noteq> None then own_prop qe k
                  else own_prop existing k))"
proof -
  let ?named = "define_prop (spread (spread [] existing) qe) ''name'' (js_or h title name)"
  let ?unsaved = "js_and h (JBool (strict_eq h unsavedId qeId)) unsaved"
  let ?merged = "define_all (spread ?named ?unsaved)
                   [(''inLocalStorage'', JBool True), (''loaded'', JBool True)]"
  have r: "merged_editor h unsaved existing qe = Some ?merged"
    using assms by (simp add: merged_editor_def)
  have d: "distinct (map fst ?merged)"
    by (intro distinct_define_all distinct_spread distinct_define_prop) simp
  have u: "map_of (own_props ?unsaved) =
             (if strict_eq h unsavedId qeId then own_prop unsaved else Map.empty)"
    by (simp add: js_and_def own_prop_eq own_props_falsy [of h])
  have "map_of ?merged k =
          (if k = ''inLocalStorage'' \<or> k = ''loaded'' then Some (JBool True)
           else if strict_eq h unsavedId qeId \<and> own_prop unsaved k \<noteq> None
                then own_prop unsaved k
           else if k = ''name'' then Some (js_or h title name)
           else if own_prop qe k \<noteq> None then own_prop qe k
           else own_prop existing k)" for k
    by (auto simp: map_of_define_all map_of_spread u map_add_def own_prop_eq split: option.splits)
  with r d show ?thesis by blast
qed

lemma get_prop_JObj_distinct:
  "distinct (map fst ps) \<Longrightarrow>
   get_prop h (JObj ps) k = Some (case map_of ps k of None \<Rightarrow> JUndefined | Some x \<Rightarrow> x)"
  by (simp add: own_prop_def own_props_JObj_distinct)

lemma map_of_copy_with:
  "distinct (map fst ps) \<Longrightarrow>
   map_of (define_prop (spread [] (JObj ps)) k v) = (map_of ps)(k \<mapsto> v)"
  by (simp add: own_prop_eq own_props_JObj_distinct)

lemma distinct_copy_with [simp]: "distinct (map fst (define_prop (spread [] v) k x))"
  by (intro distinct_define_prop distinct_spread) simp

lemma own_prop_JObj_distinct:
  "distinct (map fst ps) \<Longrightarrow> own_prop (JObj ps) k = map_of ps k"
  by (simp add: own_prop_def own_props_JObj_distinct)

text \<open>
  C4, as amended. The name of the merged editor is the legacy \<^verbatim>\<open>title\<close> whenever the title
  is truthy, and the legacy \<^verbatim>\<open>name\<close> only when the title is absent or falsy; an unsaved
  editor with the same \<^verbatim>\<open>id\<close> that has a \<^verbatim>\<open>name\<close> overrides both. The claim has the alias
  the other way round (the title only when the name is absent): the counterexample is
  a legacy editor with \<^verbatim>\<open>title: 'Legacy tab'\<close> and \<^verbatim>\<open>name: 'Query 7'\<close>, whose merged name
  is \<^verbatim>\<open>'Legacy tab'\<close>.
\<close>

theorem merged_editor_name:
  assumes "get_prop h qe ''title'' = Some title"
    and "get_prop h qe ''name'' = Some name"
    and "get_prop h qe ''id'' = Some qeId"
    and "get_prop h unsaved ''id'' = Some unsavedId"
  shows "\<exists>merged. merged_editor h unsaved existing qe = Some merged
           \<and> map_of merged ''name'' =
               (if strict_eq h unsavedId qeId \<and> own_prop unsaved ''name'' \<noteq> None
                then own_prop unsaved ''name''
                else Some (if truthy h title then title else name))"
proof -
  from map_of_merged_editor [OF assms, of existing] obtain merged
    where m: "merged_editor h unsaved existing qe = Some merged"
      and f: "\<forall>k. map_of merged k =
                 (if k = ''inLocalStorage'' \<or> k = ''loaded'' then Some (JBool True)
                  else if strict_eq h unsavedId qeId \<and> own_prop unsaved k \<noteq> None
                       then own_prop unsaved k
                  else if k = ''name'' then Some (js_or h title name)
                  else if own_prop qe k \<noteq> None then own_prop qe k
                  else own_prop existing k)"
    by blast
  from f have "map_of merged ''name'' =
                 (if strict_eq h unsavedId qeId \<and> own_prop unsaved ''name'' \<noteq> None
                  then own_prop unsaved ''name''
                  else Some (js_or h title name))"
    by simp
  with m show ?thesis by (auto simp: js_or_def)
qed

theorem merged_editor_name_witness:
  "\<exists>merged1 merged2.
     merged_editor (example_host []) (JObj []) JUndefined
       (JObj [(''id'', JStr ''7''), (''title'', JStr ''Legacy tab'')]) = Some merged1
   \<and> map_of merged1 ''name'' = Some (JStr ''Legacy tab'')
   \<and> merged_editor (example_host []) (JObj []) JUndefined
       (JObj [(''id'', JStr ''8''), (''name'', JStr ''Query 8'')]) = Some merged2
   \<and> map_of merged2 ''name'' = Some (JStr ''Query 8'')"
proof -
  let ?h = "example_host []"
  let ?qe1 = "JObj [(''id'', JStr ''7''), (''title'', JStr ''Legacy tab'')] :: number jsval"
  let ?qe2 = "JObj [(''id'', JStr ''8''), (''name'', JStr ''Query 8'')] :: number jsval"
  have u: "get_prop ?h (JObj []) ''id'' = Some JUndefined"
    "own_prop (JObj [] :: number jsval) ''name'' = None"
    by (simp_all add: eval_props)
  have g1: "get_prop ?h ?qe1 ''title'' = Some (JStr ''Legacy tab'')"
    "get_prop ?h ?qe1 ''name'' = Some JUndefined" "get_prop ?h ?qe1 ''id'' = Some (JStr ''7'')"
    by (simp_all add: eval_props)
  have g2: "get_prop ?h ?qe2 ''title'' = Some JUndefined"
    "get_prop ?h ?qe2 ''name'' = Some (JStr ''Query 8'')" "get_prop ?h ?qe2 ''id'' = Some (JStr ''8'')"
    by (simp_all add: eval_props)
  from merged_editor_name [OF g1 u(1), of JUndefined] u(2) obtain merged1
    where "merged_editor ?h (JObj []) JUndefined ?qe1 = Some merged1"
      "map_of merged1 ''name'' = Some (JStr ''Legacy tab'')"
    by auto
  moreover from merged_editor_name [OF g2 u(1), of JUndefined] u(2) obtain merged2
    where "merged_editor ?h (JObj []) JUndefined ?qe2 = Some merged2"
      "map_of merged2 ''name'' = Some (JStr ''Query 8'')"
    by auto
  ultimately show ?thesis by blast
qed

theorem merged_editor_name_counterexample:
  "merged_editor (example_host []) (JObj []) JUndefined
     (JObj [(''id'', JStr ''7''), (''title'', JStr ''Legacy tab''), (''name'', JStr ''Query 7'')])
   = Some [(''id'', JStr ''7''), (''title'', JStr ''Legacy tab''), (''name'', JStr ''Legacy tab''),
           (''inLocalStorage'', JBool True), (''loaded'', JBool True)]
   \<and> own_prop (JObj [(''id'', JStr ''7''), (''title'', JStr ''Legacy tab''),
                      (''name'', JStr ''Query 7'')] :: number jsval) ''name''
       = Some (JStr ''Query 7'')"
  by (simp add: merged_editor_def eval_props eval_values cong: eval_cong)

text \<open>
  C1, as amended. When the legacy editor \<open>qe\<close> and the editor \<open>server\<close> of the backend share
  the key \<open>key\<close>, the loop body stores under \<open>key\<close> an editor whose every field is, in this
  order of precedence: \<^verbatim>\<open>true\<close> for \<^verbatim>\<open>inLocalStorage\<close> and \<^verbatim>\<open>loaded\<close>; the field of the
  unsaved editor, when its \<^verbatim>\<open>id\<close> is \<^verbatim>\<open>===\<close> to that of \<open>qe\<close> and it has the field; for
  \<^verbatim>\<open>name\<close>, the legacy title if truthy and the legacy name otherwise; the field of \<open>qe\<close>
  if it has one; the field of \<open>server\<close>. The other editors are untouched. The claim leaves
  the rule for \<^verbatim>\<open>name\<close> out, and fails on it: with a legacy \<^verbatim>\<open>title\<close> the name that the
  legacy editor supplies is not the merged name, and with neither \<^verbatim>\<open>title\<close> nor \<^verbatim>\<open>name\<close>
  in the legacy editor the name of the server is not kept (it becomes \<^verbatim>\<open>undefined\<close>). The
  witness is the example of the specification: \<^verbatim>\<open>name: 'New'\<close>, \<^verbatim>\<open>sql: 'SELECT 1'\<close>,
  \<^verbatim>\<open>inLocalStorage: true\<close>, and a field of the server that the legacy editor does not
  mention is kept.
\<close>

theorem merge_editor_precedence:
  assumes "distinct (map fst editors0)"
    and "map_of editors0 key = Some server"
    and "get_prop h qe ''id'' = Some qeId"
    and "to_key h qeId = Some key"
    and "get_prop h qe ''title'' = Some title"
    and "get_prop h qe ''name'' = Some name"
    and "get_prop h unsaved ''id'' = Some unsavedId"
  shows "\<exists>editors1 merged.
           merge_editor h unsaved qe editors0 = Some editors1
         \<and> map_of editors1 key = Some (JObj merged)
         \<and> (\<forall>k. map_of merged k =
               (if k = ''inLocalStorage'' \<or> k = ''loaded'' then Some (JBool True)
                else if strict_eq h unsavedId qeId \<and> own_prop unsaved k \<noteq> None
                     then own_prop unsaved k
                else if k = ''name'' then Some (if truthy h title then title else name)
                else if own_prop qe k \<noteq> None then own_prop qe k
                else own_prop server k))
         \<and> (\<forall>k. k \<noteq> key \<longrightarrow> map_of editors1 k = map_of editors0 k)"
proof -
  from map_of_merged_editor [OF assms(5,6,3,7), of server] obtain merged
    where m: "merged_editor h unsaved server qe = Some merged"
      and f: "\<forall>k. map_of merged k =
                 (if k = ''inLocalStorage'' \<or> k = ''loaded'' then Some (JBool True)
                  else if strict_eq h unsavedId qeId \<and> own_prop unsaved k \<noteq> None
                       then own_prop unsaved k
                  else if k = ''name'' then Some (js_or h title name)
                  else if own_prop qe k \<noteq> None then own_prop qe k
                  else own_prop server k)"
    by blast
  let ?editors1 = "define_prop (spread [] (JObj editors0)) key (JObj merged)"
  have "get_prop h (JObj editors0) key = Some server"
    using assms(1,2) by (simp only: get_prop_JObj_distinct option.case)
  then have "merge_editor h unsaved qe editors0 = Some ?editors1"
    using assms(3,4) m by (simp add: merge_editor_def)
  moreover have "map_of ?editors1 key = Some (JObj merged)"
    by simp
  moreover have "\<forall>k. k \<noteq> key \<longrightarrow> map_of ?editors1 k = map_of editors0 k"
    using assms(1) by (simp add: own_prop_JObj_distinct)
  ultimately show ?thesis using f unfolding js_or_def by blast
qed

theorem merge_editor_precedence_witness:
  "\<exists>editors1 merged.
     merge_editor (example_host []) (JObj [])
       (JObj [(''id'', JStr ''1''), (''name'', JStr ''New''), (''sql'', JStr ''SELECT 1'')])
       [(''1'', JObj [(''id'', JStr ''1''), (''name'', JStr ''Old''), (''dbId'', JNum (Finite 3))])]
       = Some editors1
   \<and> map_of editors1 ''1'' = Some (JObj merged)
   \<and> map_of merged ''name'' = Some (JStr ''New'')
   \<and> map_of merged ''sql'' = Some (JStr ''SELECT 1'')
   \<and> map_of merged ''dbId'' = Some (JNum (Finite 3))
   \<and> map_of merged ''inLocalStorage'' = Some (JBool True)
   \<and> map_of merged ''loaded'' = Some (JBool True)"
proof -
  let ?h = "example_host []"
  let ?qe = "JObj [(''id'', JStr ''1''), (''name'', JStr ''New''), (''sql'', JStr ''SELECT 1'')] :: number jsval"
  let ?server = "JObj [(''id'', JStr ''1''), (''name'', JStr ''Old''), (''dbId'', JNum (Finite 3))] :: number jsval"
  have d: "distinct (map fst [(''1'', ?server)])" and s: "map_of [(''1'', ?server)] ''1'' = Some ?server"
    by simp_all
  have g: "get_prop ?h ?qe ''id'' = Some (JStr ''1'')" "to_key ?h (JStr ''1'') = Some ''1''"
    "get_prop ?h ?qe ''title'' = Some JUndefined" "get_prop ?h ?qe ''name'' = Some (JStr ''New'')"
    "get_prop ?h (JObj []) ''id'' = Some JUndefined"
    by (simp_all add: eval_props)
  have o: "own_prop (JObj [] :: number jsval) k = None"
    "own_prop ?qe ''sql'' = Some (JStr ''SELECT 1'')" "own_prop ?qe ''dbId'' = None"
    "own_prop ?server ''dbId'' = Some (JNum (Finite 3))" for k
    by (simp_all add: eval_props)
  show ?thesis
    using merge_editor_precedence [OF d s g]
    apply (elim exE conjE)
    apply (intro exI conjI)
          apply assumption
         apply assumption
        apply (simp_all add: o)
    done
qed

theorem merge_editor_precedence_counterexample:
  "merge_editor (example_host []) (JObj [])
     (JObj [(''id'', JStr ''1''), (''name'', JStr ''New''), (''title'', JStr ''Tab 1'')])
     [(''1'', JObj [(''id'', JStr ''1''), (''name'', JStr ''Old'')])]
   = Some [(''1'', JObj [(''id'', JStr ''1''), (''name'', JStr ''Tab 1''), (''title'', JStr ''Tab 1''),
                         (''inLocalStorage'', JBool True), (''loaded'', JBool True)])]
   \<and> own_prop (JObj [(''id'', JStr ''1''), (''name'', JStr ''New''),
                      (''title'', JStr ''Tab 1'')] :: number jsval) ''name'' = Some (JStr ''New'')
   \<and> merge_editor (example_host []) (JObj [])
     (JObj [(''id'', JStr ''1''), (''sql'', JStr ''SELECT 1'')])
     [(''1'', JObj [(''id'', JStr ''1''), (''name'', JStr ''Old'')])]
   = Some [(''1'', JObj [(''id'', JStr ''1''), (''name'', JUndefined), (''sql'', JStr ''SELECT 1''),
                         (''inLocalStorage'', JBool True), (''loaded'', JBool True)])]
   \<and> own_prop (JObj [(''id'', JStr ''1''), (''sql'', JStr ''SELECT 1'')] :: number jsval) ''name'' = None"
  by (simp add: merge_editor_def merged_editor_def eval_props eval_values cong: eval_cong)

section \<open>Properties of the merge of the legacy tables\<close>

lemma forEach_append:
  "forEach f (xs @ ys) s =
     (case forEach f xs s of Normal s' \<Rightarrow> forEach f ys s' | Abrupt s' \<Rightarrow> Abrupt s')"
  by (induction xs arbitrary: s) (auto split: option.splits)

lemma merge_table_step:
  assumes "distinct (map fst tables0)"
    and "distinct (map fst acc)"
    and "get_prop h t ''queryEditorId'' = Some q"
    and "get_prop h t ''id'' = Some i"
    and "to_key h i = Some k"
  shows "\<exists>acc1.
           merge_table h tables0 t (seen, acc) =
             Some (if list_ex (\<lambda>s. same_value_zero h s q) seen then seen else seen @ [q], acc1)
         \<and> distinct (map fst acc1)
         \<and> map_of acc1 = (map_of acc)
              (k \<mapsto> JObj (define_prop
                              (spread (spread [] (case map_of tables0 k of
                                                    None \<Rightarrow> JUndefined | Some x \<Rightarrow> x)) t)
                              ''expanded'' (JBool (\<not> list_ex (\<lambda>s. same_value_zero h s q) seen))))"
proof -
  have e: "get_prop h (JObj tables0) k =
             Some (case map_of tables0 k of None \<Rightarrow> JUndefined | Some x \<Rightarrow> x)"
    using assms(1) by (simp only: get_prop_JObj_distinct)
  have m: "own_prop (JObj acc) = map_of acc"
    using assms(2) by (simp add: own_prop_eq own_props_JObj_distinct)
  show ?thesis
    using assms(3-5) e by (simp add: merge_table_def Let_def m del: get_prop.simps)
qed

text \<open>
  The state of \<^verbatim>\<open>sqlLab.tables.reduce\<close> after the first \<open>n\<close> legacy tables. The table \<open>n\<close> has
  the owner \<open>owner n\<close> (its \<^verbatim>\<open>queryEditorId\<close>) and the key \<open>key n\<close> (of its \<^verbatim>\<open>id\<close>); the set
  \<^verbatim>\<open>expandedTables\<close> holds the owners of the tables expanded so far.
\<close>

lemma merge_tables_invariant:
  assumes d0: "distinct (map fst tables0)"
    and wf: "\<forall>n<length legacy.
               get_prop h (legacy ! n) ''queryEditorId'' = Some (owner n)
             \<and> (\<exists>i. get_prop h (legacy ! n) ''id'' = Some i \<and> to_key h i = Some (key n))"
    and inj: "inj_on key {..<length legacy}"
  shows "n \<le> length legacy \<Longrightarrow>
         \<exists>seen acc expanded.
           forEach (merge_table h tables0) (take n legacy) ([], tables0) = Normal (seen, acc)
         \<and> distinct (map fst acc)
         \<and> set seen = {owner j | j. j < n \<and> expanded j}
         \<and> (\<forall>m<n. expanded m = (\<forall>j<m. expanded j \<longrightarrow> \<not> same_value_zero h (owner j) (owner m)))
         \<and> (\<forall>m<n. map_of acc (key m) =
                Some (JObj (define_prop
                              (spread (spread [] (case map_of tables0 (key m) of
                                                    None \<Rightarrow> JUndefined | Some x \<Rightarrow> x))
                                 (legacy ! m))
                              ''expanded'' (JBool (expanded m)))))
         \<and> (\<forall>k. k \<notin> key ` {..<n} \<longrightarrow> map_of acc k = map_of tables0 k)"
proof (induction n)
  case 0
  show ?case using d0 by simp
next
  case (Suc n)
  then have n: "n < length legacy" by simp
  from Suc obtain seen acc expanded
    where run: "forEach (merge_table h tables0) (take n legacy) ([], tables0) = Normal (seen, acc)"
      and dacc: "distinct (map fst acc)"
      and seen: "set seen = {owner j | j. j < n \<and> expanded j}"
      and flags: "\<forall>m<n. expanded m =
                    (\<forall>j<m. expanded j \<longrightarrow> \<not> same_value_zero h (owner j) (owner m))"
      and stored: "\<forall>m<n. map_of acc (key m) =
                Some (JObj (define_prop
                              (spread (spread [] (case map_of tables0 (key m) of
                                                    None \<Rightarrow> JUndefined | Some x \<Rightarrow> x))
                                 (legacy ! m))
                              ''expanded'' (JBool (expanded m))))"
      and others: "\<forall>k. k \<notin> key ` {..<n} \<longrightarrow> map_of acc k = map_of tables0 k"
    by auto
  from wf n obtain i where q: "get_prop h (legacy ! n) ''queryEditorId'' = Some (owner n)"
    and i: "get_prop h (legacy ! n) ''id'' = Some i" and k: "to_key h i = Some (key n)"
    by blast
  let ?has = "list_ex (\<lambda>s. same_value_zero h s (owner n)) seen"
  let ?row = "JObj (define_prop
                      (spread (spread [] (case map_of tables0 (key n) of
                                            None \<Rightarrow> JUndefined | Some x \<Rightarrow> x))
                         (legacy ! n))
                      ''expanded'' (JBool (\<not> ?has)))"
  from merge_table_step [OF d0 dacc q i k, of seen] obtain acc1
    where step: "merge_table h tables0 (legacy ! n) (seen, acc) =
                   Some (if ?has then seen else seen @ [owner n], acc1)"
      and dacc1: "distinct (map fst acc1)"
      and macc1: "map_of acc1 = (map_of acc)(key n \<mapsto> ?row)"
    by blast
  let ?seen1 = "if ?has then seen else seen @ [owner n]"
  let ?expanded1 = "expanded(n := \<not> ?has)"
  have has: "?has = (\<exists>j<n. expanded j \<and> same_value_zero h (owner j) (owner n))"
    using seen by (auto simp: list_ex_iff)
  have take: "take (Suc n) legacy = take n legacy @ [legacy ! n]"
    using n by (simp add: take_Suc_conv_app_nth)
  have run1: "forEach (merge_table h tables0) (take (Suc n) legacy) ([], tables0)
                = Normal (?seen1, acc1)"
    by (simp only: take forEach_append run completion.case forEach.simps step option.case)
  have seen1: "set ?seen1 = {owner j | j. j < Suc n \<and> ?expanded1 j}"
  proof (cases ?has)
    case True
    then show ?thesis using seen by (auto simp: less_Suc_eq)
  next
    case False
    then show ?thesis using seen by (auto simp: less_Suc_eq)
  qed
  have flags1: "\<forall>m<Suc n. ?expanded1 m =
                  (\<forall>j<m. ?expanded1 j \<longrightarrow> \<not> same_value_zero h (owner j) (owner m))"
  proof (intro allI impI)
    fix m assume "m < Suc n"
    then consider "m < n" | "m = n" by (auto simp: less_Suc_eq)
    then show "?expanded1 m =
                 (\<forall>j<m. ?expanded1 j \<longrightarrow> \<not> same_value_zero h (owner j) (owner m))"
    proof cases
      case 1
      with flags show ?thesis by auto
    next
      case 2
      with has show ?thesis by auto
    qed
  qed
  have keys: "key m \<noteq> key n" if "m < n" for m
    using inj n that by (auto simp: inj_on_def)
  have stored1: "\<forall>m<Suc n. map_of acc1 (key m) =
                Some (JObj (define_prop
                              (spread (spread [] (case map_of tables0 (key m) of
                                                    None \<Rightarrow> JUndefined | Some x \<Rightarrow> x))
                                 (legacy ! m))
                              ''expanded'' (JBool (?expanded1 m))))"
    using stored keys by (auto simp: less_Suc_eq macc1)
  have others1: "\<forall>k. k \<notin> key ` {..<Suc n} \<longrightarrow> map_of acc1 k = map_of tables0 k"
    using others by (auto simp: macc1 lessThan_Suc)
  show ?case
    using run1 dacc1 seen1 flags1 stored1 others1 by blast
qed

text \<open>
  C2, as amended. The merge recomputes the flag \<^verbatim>\<open>expanded\<close> of every legacy table, in the
  order of the legacy sequence and whatever the flag was: a table is expanded exactly
  when no expanded table before it has the same owner (for \<^verbatim>\<open>SameValueZero\<close>). So of two
  legacy tables of one owner at most one is expanded, the earlier one, and the first
  table of an owner is expanded. The row stored under the key of the table has the
  recomputed flag, the other fields of the legacy table and, below them, those of the
  table that the backend had under the key. A table of the backend that no legacy
  table overwrites is kept as it is, with the flag the backend gave it: the merge
  does not look at it, and this is where the claim fails on the state returned. In
  the counterexample the active tab has a table with \<^verbatim>\<open>expanded: true\<close> and the legacy
  state has one table of the same editor with \<^verbatim>\<open>expanded: false\<close>; the state returned
  has both, both expanded. The witness is the example of the specification: of three
  legacy tables of one editor, all marked expanded, only the first stays expanded.
\<close>

theorem merge_tables_single_expansion:
  assumes "distinct (map fst tables0)"
    and "\<forall>n<length legacy.
           get_prop h (legacy ! n) ''queryEditorId'' = Some (owner n)
         \<and> (\<exists>i. get_prop h (legacy ! n) ''id'' = Some i \<and> to_key h i = Some (key n))"
    and "inj_on key {..<length legacy}"
  shows "\<exists>merged expanded.
           merge_tables h tables0 legacy = Some merged
         \<and> (\<forall>n<length legacy.
               expanded n = (\<forall>j<n. expanded j \<longrightarrow> \<not> same_value_zero h (owner j) (owner n)))
         \<and> (\<forall>i j. i < j \<and> j < length legacy \<and> expanded i
                  \<and> same_value_zero h (owner i) (owner j) \<longrightarrow> \<not> expanded j)
         \<and> (\<forall>n<length legacy. \<exists>row.
               map_of merged (key n) = Some (JObj row)
             \<and> map_of row ''expanded'' = Some (JBool (expanded n))
             \<and> (\<forall>k. k \<noteq> ''expanded'' \<longrightarrow>
                   map_of row k =
                     (case own_prop (legacy ! n) k of
                        Some v \<Rightarrow> Some v
                      | None \<Rightarrow> Option.bind (map_of tables0 (key n)) (\<lambda>server. own_prop server k))))
         \<and> (\<forall>k. k \<notin> key ` {..<length legacy} \<longrightarrow> map_of merged k = map_of tables0 k)"
proof -
  from merge_tables_invariant [OF assms, of "length legacy"] obtain seen acc expanded
    where run: "forEach (merge_table h tables0) legacy ([], tables0) = Normal (seen, acc)"
      and flags: "\<forall>m<length legacy. expanded m =
                    (\<forall>j<m. expanded j \<longrightarrow> \<not> same_value_zero h (owner j) (owner m))"
      and stored: "\<forall>m<length legacy. map_of acc (key m) =
                Some (JObj (define_prop
                              (spread (spread [] (case map_of tables0 (key m) of
                                                    None \<Rightarrow> JUndefined | Some x \<Rightarrow> x))
                                 (legacy ! m))
                              ''expanded'' (JBool (expanded m))))"
      and others: "\<forall>k. k \<notin> key ` {..<length legacy} \<longrightarrow> map_of acc k = map_of tables0 k"
    by auto
  have result: "merge_tables h tables0 legacy = Some acc"
    by (simp add: merge_tables_def run)
  have one: "\<forall>i j. i < j \<and> j < length legacy \<and> expanded i
               \<and> same_value_zero h (owner i) (owner j) \<longrightarrow> \<not> expanded j"
    using flags by blast
  have rows: "\<forall>n<length legacy. \<exists>row.
               map_of acc (key n) = Some (JObj row)
             \<and> map_of row ''expanded'' = Some (JBool (expanded n))
             \<and> (\<forall>k. k \<noteq> ''expanded'' \<longrightarrow>
                   map_of row k =
                     (case own_prop (legacy ! n) k of
                        Some v \<Rightarrow> Some v
                      | None \<Rightarrow> Option.bind (map_of tables0 (key n)) (\<lambda>server. own_prop server k)))"
  proof (intro allI impI)
    fix n assume n: "n < length legacy"
    let ?row = "define_prop
                  (spread (spread [] (case map_of tables0 (key n) of
                                        None \<Rightarrow> JUndefined | Some x \<Rightarrow> x))
                     (legacy ! n))
                  ''expanded'' (JBool (expanded n))"
    have "map_of acc (key n) = Some (JObj ?row)" using stored n by simp
    moreover have "map_of ?row ''expanded'' = Some (JBool (expanded n))" by simp
    moreover have "\<forall>k. k \<noteq> ''expanded'' \<longrightarrow>
                   map_of ?row k =
                     (case own_prop (legacy ! n) k of
                        Some v \<Rightarrow> Some v
                      | None \<Rightarrow> Option.bind (map_of tables0 (key n)) (\<lambda>server. own_prop server k))"
      by (auto simp: map_of_spread map_add_def own_prop_eq own_props_def define_all_def
          split: option.splits)
    ultimately show "\<exists>row.
               map_of acc (key n) = Some (JObj row)
             \<and> map_of row ''expanded'' = Some (JBool (expanded n))
             \<and> (\<forall>k. k \<noteq> ''expanded'' \<longrightarrow>
                   map_of row k =
                     (case own_prop (legacy ! n) k of
                        Some v \<Rightarrow> Some v
                      | None \<Rightarrow> Option.bind (map_of tables0 (key n)) (\<lambda>server. own_prop server k)))"
      by blast
  qed
  from result flags one rows others show ?thesis by blast
qed

theorem merge_tables_single_expansion_witness:
  "\<exists>merged t1 t2 t3.
     merge_tables (example_host []) []
       [JObj [(''id'', JStr ''t1''), (''queryEditorId'', JStr ''1''), (''expanded'', JBool True)],
        JObj [(''id'', JStr ''t2''), (''queryEditorId'', JStr ''1''), (''expanded'', JBool True)],
        JObj [(''id'', JStr ''t3''), (''queryEditorId'', JStr ''1''), (''expanded'', JBool True)]]
       = Some merged
   \<and> map_of merged ''t1'' = Some (JObj t1) \<and> map_of t1 ''expanded'' = Some (JBool True)
   \<and> map_of merged ''t2'' = Some (JObj t2) \<and> map_of t2 ''expanded'' = Some (JBool False)
   \<and> map_of merged ''t3'' = Some (JObj t3) \<and> map_of t3 ''expanded'' = Some (JBool False)"
proof -
  let ?h = "example_host []"
  let ?t1 = "JObj [(''id'', JStr ''t1''), (''queryEditorId'', JStr ''1''), (''expanded'', JBool True)] :: number jsval"
  let ?t2 = "JObj [(''id'', JStr ''t2''), (''queryEditorId'', JStr ''1''), (''expanded'', JBool True)] :: number jsval"
  let ?t3 = "JObj [(''id'', JStr ''t3''), (''queryEditorId'', JStr ''1''), (''expanded'', JBool True)] :: number jsval"
  let ?key = "\<lambda>n. [''t1'', ''t2'', ''t3''] ! n"
  let ?owner = "\<lambda>n::nat. JStr ''1'' :: number jsval"
  have l: "length [?t1, ?t2, ?t3] = Suc (Suc (Suc 0))" by simp
  have d: "distinct (map fst ([] :: number props))" by simp
  have g: "get_prop ?h ?t1 ''queryEditorId'' = Some (JStr ''1'')" "get_prop ?h ?t1 ''id'' = Some (JStr ''t1'')"
    "get_prop ?h ?t2 ''queryEditorId'' = Some (JStr ''1'')" "get_prop ?h ?t2 ''id'' = Some (JStr ''t2'')"
    "get_prop ?h ?t3 ''queryEditorId'' = Some (JStr ''1'')" "get_prop ?h ?t3 ''id'' = Some (JStr ''t3'')"
    by (simp_all add: eval_props)
  have wf: "\<forall>n<length [?t1, ?t2, ?t3].
           get_prop ?h ([?t1, ?t2, ?t3] ! n) ''queryEditorId'' = Some (?owner n)
         \<and> (\<exists>i. get_prop ?h ([?t1, ?t2, ?t3] ! n) ''id'' = Some i \<and> to_key ?h i = Some (?key n))"
    unfolding l by (simp only: All_less_Suc nth_Cons_Suc nth_Cons_0 g) simp
  have inj: "inj_on ?key {..<length [?t1, ?t2, ?t3]}"
    unfolding l by (simp add: lessThan_Suc)
  from merge_tables_single_expansion [OF d wf inj, unfolded l] obtain merged expanded
    where r: "merge_tables ?h [] [?t1, ?t2, ?t3] = Some merged"
      and f: "\<forall>n<Suc (Suc (Suc 0)).
               expanded n = (\<forall>j<n. expanded j \<longrightarrow> \<not> same_value_zero ?h (?owner j) (?owner n))"
      and rows: "\<forall>n<Suc (Suc (Suc 0)). \<exists>row.
               map_of merged (?key n) = Some (JObj row)
             \<and> map_of row ''expanded'' = Some (JBool (expanded n))
             \<and> (\<forall>k. k \<noteq> ''expanded'' \<longrightarrow>
                   map_of row k =
                     (case own_prop ([?t1, ?t2, ?t3] ! n) k of
                        Some v \<Rightarrow> Some v
                      | None \<Rightarrow> Option.bind (map_of [] (?key n)) (\<lambda>server. own_prop server k)))"
    by (elim exE conjE) (rule that)
  have s: "same_value_zero ?h (JStr ''1'') (JStr ''1'')" by (simp add: same_value_zero_def)
  from f [rule_format, of 0] have e0: "expanded 0" by simp
  from f [rule_format, of "Suc 0"] e0 s have e1: "\<not> expanded (Suc 0)" by simp
  from f [rule_format, of "Suc (Suc 0)"] e0 s have e2: "\<not> expanded (Suc (Suc 0))"
    by (simp add: All_less_Suc)
  from rows [rule_format, of 0] obtain t1 where "map_of merged ''t1'' = Some (JObj t1)"
    "map_of t1 ''expanded'' = Some (JBool (expanded 0))"
    by auto
  moreover from rows [rule_format, of "Suc 0"] obtain t2 where "map_of merged ''t2'' = Some (JObj t2)"
    "map_of t2 ''expanded'' = Some (JBool (expanded (Suc 0)))"
    by auto
  moreover from rows [rule_format, of "Suc (Suc 0)"] obtain t3
    where "map_of merged ''t3'' = Some (JObj t3)"
    "map_of t3 ''expanded'' = Some (JBool (expanded (Suc (Suc 0))))"
    by auto
  ultimately show ?thesis using r e0 e1 e2 by simp
qed

theorem single_expansion_counterexample:
  "map_option (\<lambda>state. tables (sqlLab state))
     (fst (getInitialState
        (example_host
           [(''legacy'',
             JObj [(''sqlLab'', JObj
               [(''queryEditors'', JArr [JObj [(''id'', JStr ''1'')]]),
                (''tables'', JArr [JObj [(''id'', JStr ''t1''), (''queryEditorId'', JStr ''1''),
                                        (''expanded'', JBool False)]]),
                (''queries'', JObj []),
                (''tabHistory'', JArr [])])])])
        (JObj [(''common'', JObj [(''conf'', JObj [])]),
               (''active_tab'', JObj
                 [(''id'', JNum (Finite 1)),
                  (''table_schemas'', JArr
                    [JObj [(''id'', JNum (Finite 10)), (''tab_state_id'', JNum (Finite 1)),
                           (''expanded'', JBool True),
                           (''description'', JObj [])]])])])
        (Holds (Some ''legacy''))))
   = Some
      [JObj [(''dbId'', JUndefined), (''queryEditorId'', JStr ''1''), (''schema'', JUndefined),
             (''name'', JUndefined), (''expanded'', JBool True), (''id'', JNum (Finite 10)),
             (''dataPreviewQueryId'', JUndefined), (''persistData'', JObj []),
             (''initialized'', JBool True)],
       JObj [(''id'', JStr ''t1''), (''queryEditorId'', JStr ''1''), (''expanded'', JBool True)]]"
  by (simp add: eval_program eval_props eval_values Let_def cong: eval_cong)

section \<open>Properties of the legacy store\<close>

text \<open>
  A value that is truthy and no object has no property \<^verbatim>\<open>queryEditors\<close>: reading its
  \<^verbatim>\<open>length\<close> throws.
\<close>

lemma get_prop_not_object:
  assumes "truthy h v" and "\<forall>ps. v \<noteq> JObj ps" and "c \<notin> set ''0123456789''" and "c # r \<noteq> ''length''"
  shows "get_prop h v (c # r) = Some JUndefined"
  using assms by (cases v) (simp_all add: own_prop_of_array)

lemma try_block_unavailable:
  "v_localStorage vars = Unavailable \<Longrightarrow> try_block h vars = Abrupt vars"
  by (simp add: try_block_def)

lemma try_block_absent:
  "v_localStorage vars = Holds None \<Longrightarrow> try_block h vars = Normal vars"
  by (simp add: try_block_def)

lemma try_block_unparsable:
  "v_localStorage vars = Holds (Some s) \<Longrightarrow> h_JSON_parse h s = None \<Longrightarrow>
   catch (try_block h vars) = vars"
  by (simp add: try_block_def)

lemma try_block_no_sqlLab:
  assumes "v_localStorage vars = Holds (Some s)"
    and "h_JSON_parse h s = Some parsed"
    and "\<forall>ps. get_prop h parsed ''sqlLab'' \<noteq> Some (JObj ps)"
  shows "catch (try_block h vars) = vars"
proof (cases "get_prop h parsed ''sqlLab''")
  case None
  with assms show ?thesis by (simp add: try_block_def)
next
  case (Some sl)
  show ?thesis
  proof (cases "truthy h sl")
    case False
    with Some assms show ?thesis by (simp add: try_block_def)
  next
    case True
    from assms(3) Some have "\<forall>ps. sl \<noteq> JObj ps" by simp
    from get_prop_not_object [OF True this, of "CHR ''q''" "''ueryEditors''"]
    have "get_prop h sl ''queryEditors'' = Some JUndefined" by simp
    with Some True assms show ?thesis by (simp add: try_block_def)
  qed
qed

lemma assemble_store [simp]: "assemble h p (vars\<lparr>v_localStorage := store\<rparr>) = assemble h p vars"
  by (simp add: assemble_def)

lemma server_state_store:
  "server_state h p store = map_option (\<lambda>vars. vars\<lparr>v_localStorage := store\<rparr>) (server_state h p (Holds None))"
  by (auto simp: server_state_def split: Option.bind_splits)

lemma server_state_localStorage:
  "server_state h p store = Some vars \<Longrightarrow> v_localStorage vars = store"
  by (auto simp: server_state_def split: Option.bind_splits)

lemma getInitialState_without_legacy:
  "getInitialState h arg (Holds None) =
     (Option.bind (destructure h arg)
        (\<lambda>p. Option.bind (server_state h p (Holds None)) (assemble h p)),
      Holds None)"
proof (cases "destructure h arg")
  case None
  then show ?thesis by (simp add: getInitialState_def)
next
  case (Some p)
  show ?thesis
  proof (cases "server_state h p (Holds None)")
    case None
    with Some show ?thesis by (simp add: getInitialState_def)
  next
    case (Some vars)
    from server_state_localStorage [OF this] have "try_block h vars = Normal vars"
      by (rule try_block_absent)
    with Some \<open>destructure h arg = Some p\<close> show ?thesis
      using server_state_localStorage [OF Some] by (simp add: getInitialState_def)
  qed
qed

lemma getInitialState_unchanged:
  assumes "\<And>vars. v_localStorage vars = store \<Longrightarrow> catch (try_block h vars) = vars"
  shows "getInitialState h arg store = (fst (getInitialState h arg (Holds None)), store)"
proof (cases "destructure h arg")
  case None
  then show ?thesis by (simp add: getInitialState_def)
next
  case (Some p)
  show ?thesis
  proof (cases "server_state h p (Holds None)")
    case None
    with Some show ?thesis
      by (simp add: getInitialState_def server_state_store [of h p store])
  next
    case (Some vars)
    let ?vars = "vars\<lparr>v_localStorage := store\<rparr>"
    have s: "server_state h p store = Some ?vars"
      using Some by (simp add: server_state_store [of h p store])
    have "catch (try_block h ?vars) = ?vars" by (rule assms) simp
    moreover have "try_block h vars = Normal vars"
      using server_state_localStorage [OF Some] by (rule try_block_absent)
    ultimately show ?thesis
      using s Some \<open>destructure h arg = Some p\<close> by (simp add: getInitialState_def)
  qed
qed

text \<open>
  C3. When the browser denies access to the store, or the store has no item \<^verbatim>\<open>redux\<close>, or
  the item does not parse, or it parses to a value whose \<^verbatim>\<open>sqlLab\<close> is not an object (also
  when reading \<^verbatim>\<open>sqlLab\<close> throws, as on \<^verbatim>\<open>null\<close>), \<open>getInitialState\<close> returns exactly what it
  returns with an empty store, and leaves the store as it is. What is thrown inside the
  \<^verbatim>\<open>try\<close> block is caught there: the result is \<open>None\<close> only if it is with an empty store.
\<close>

theorem legacy_store_unusable:
  assumes "store = Unavailable \<or> store = Holds None
         \<or> (\<exists>s. store = Holds (Some s)
               \<and> (h_JSON_parse h s = None
                  \<or> (\<exists>parsed. h_JSON_parse h s = Some parsed
                       \<and> (\<forall>ps. get_prop h parsed ''sqlLab'' \<noteq> Some (JObj ps)))))"
  shows "getInitialState h arg store = (fst (getInitialState h arg (Holds None)), store)"
proof (rule getInitialState_unchanged)
  fix vars :: "'a vars"
  assume "v_localStorage vars = store"
  with assms show "catch (try_block h vars) = vars"
    by (auto simp: try_block_unavailable try_block_absent try_block_unparsable
        try_block_no_sqlLab)
qed

theorem legacy_store_unusable_witness:
  "getInitialState (example_host [(''[1]'', JArr [JNum (Finite 1)]), (''null'', JNull)])
     (JObj [(''common'', JObj [(''conf'', JObj [])])]) (Holds (Some ''{oops''))
   = (fst (getInitialState (example_host [(''[1]'', JArr [JNum (Finite 1)]), (''null'', JNull)])
             (JObj [(''common'', JObj [(''conf'', JObj [])])]) (Holds None)),
      Holds (Some ''{oops''))
   \<and> getInitialState (example_host [(''[1]'', JArr [JNum (Finite 1)]), (''null'', JNull)])
     (JObj [(''common'', JObj [(''conf'', JObj [])])]) (Holds (Some ''[1]''))
   = (fst (getInitialState (example_host [(''[1]'', JArr [JNum (Finite 1)]), (''null'', JNull)])
             (JObj [(''common'', JObj [(''conf'', JObj [])])]) (Holds None)),
      Holds (Some ''[1]''))
   \<and> getInitialState (example_host [(''[1]'', JArr [JNum (Finite 1)]), (''null'', JNull)])
     (JObj [(''common'', JObj [(''conf'', JObj [])])]) (Holds (Some ''null''))
   = (fst (getInitialState (example_host [(''[1]'', JArr [JNum (Finite 1)]), (''null'', JNull)])
             (JObj [(''common'', JObj [(''conf'', JObj [])])]) (Holds None)),
      Holds (Some ''null''))
   \<and> getInitialState (example_host [(''[1]'', JArr [JNum (Finite 1)]), (''null'', JNull)])
     (JObj [(''common'', JObj [(''conf'', JObj [])])]) Unavailable
   = (fst (getInitialState (example_host [(''[1]'', JArr [JNum (Finite 1)]), (''null'', JNull)])
             (JObj [(''common'', JObj [(''conf'', JObj [])])]) (Holds None)),
      Unavailable)"
proof -
  let ?h = "example_host [(''[1]'', JArr [JNum (Finite 1)]), (''null'', JNull)]"
  have p1: "h_JSON_parse ?h ''{oops'' = None" by simp
  have p2: "h_JSON_parse ?h ''[1]'' = Some (JArr [JNum (Finite 1)])"
    "\<forall>ps. get_prop ?h (JArr [JNum (Finite 1)]) ''sqlLab'' \<noteq> Some (JObj ps)"
    by (simp_all add: own_prop_of_array)
  have p3: "h_JSON_parse ?h ''null'' = Some JNull"
    "\<forall>ps. get_prop ?h JNull ''sqlLab'' \<noteq> Some (JObj ps)"
    by simp_all
  show ?thesis
    using legacy_store_unusable [of "Holds (Some ''{oops'')" ?h]
      legacy_store_unusable [of "Holds (Some ''[1]'')" ?h]
      legacy_store_unusable [of "Holds (Some ''null'')" ?h]
      legacy_store_unusable [of Unavailable ?h]
      p1 p2 p3
    by simp
qed

lemma getInitialState_store_changed:
  assumes "\<And>vars. v_localStorage vars = store \<Longrightarrow>
             catch (try_block h vars) = vars\<lparr>v_localStorage := store1\<rparr>"
  shows "fst (getInitialState h arg store) = fst (getInitialState h arg (Holds None))
       \<and> (fst (getInitialState h arg store) \<noteq> None \<longrightarrow> snd (getInitialState h arg store) = store1)"
proof (cases "destructure h arg")
  case None
  then show ?thesis by (simp add: getInitialState_def)
next
  case (Some p)
  show ?thesis
  proof (cases "server_state h p (Holds None)")
    case None
    with Some show ?thesis
      by (simp add: getInitialState_def server_state_store [of h p store])
  next
    case (Some vars)
    let ?vars = "vars\<lparr>v_localStorage := store\<rparr>"
    have s: "server_state h p store = Some ?vars"
      using Some by (simp add: server_state_store [of h p store])
    have "catch (try_block h ?vars) = ?vars\<lparr>v_localStorage := store1\<rparr>" by (rule assms) simp
    moreover have "try_block h vars = Normal vars"
      using server_state_localStorage [OF Some] by (rule try_block_absent)
    ultimately show ?thesis
      using s Some \<open>destructure h arg = Some p\<close> by (simp add: getInitialState_def)
  qed
qed

lemma try_block_migrated:
  assumes "v_localStorage vars = Holds (Some s)" and "s \<noteq> []"
    and "h_JSON_parse h s = Some parsed"
    and "get_prop h parsed ''sqlLab'' = Some (JObj sl)"
    and "get_prop h (JObj sl) ''queryEditors'' = Some (JArr [])"
    and "h_strict_eq h (h_of_nat h 0) (h_of_nat h 0)"
  shows "try_block h vars = Normal (vars\<lparr>v_localStorage := Holds None\<rparr>)"
proof -
  have "get_prop h (JArr []) ''length'' = Some (JNum (h_of_nat h 0))" by simp
  with assms show ?thesis by (simp add: try_block_def strict_eq_def del: get_prop.simps)
qed

text \<open>
  The editors built from the state of the backend have no property \<^verbatim>\<open>inLocalStorage\<close>.
\<close>

lemma forEach_invariant:
  assumes "P s" and "\<And>x s s1. P s \<Longrightarrow> f x s = Some s1 \<Longrightarrow> P s1"
  shows "forEach f xs s = Normal s1 \<or> forEach f xs s = Abrupt s1 \<Longrightarrow> P s1"
  using assms(1)
proof (induction xs arbitrary: s)
  case Nil
  then show ?case by auto
next
  case (Cons x xs)
  show ?case
  proof (cases "f x s")
    case None
    with Cons.prems show ?thesis by auto
  next
    case (Some s2)
    with Cons.prems assms(2) [of s x s2] have "P s2" by simp
    from Cons.IH [OF _ this] Cons.prems(1) Some show ?thesis by simp
  qed
qed

lemma own_prop_JObj_None: "k \<notin> fst ` set ps \<Longrightarrow> own_prop (JObj ps) k = None"
  by (simp add: own_prop_None_iff)

lemma keys_spread_empty: "fst ` set (spread [] v) = fst ` set (listed v)"
  by (simp add: spread_def keys_define_all keys_own_props)

lemma key_of_define_all:
  assumes "(k, v) \<in> set (define_all ps kvs)"
  shows "k \<in> fst ` set ps \<or> k \<in> fst ` set kvs"
proof -
  from assms have "fst (k, v) \<in> fst ` set (define_all ps kvs)" by (rule imageI)
  then show ?thesis by (simp add: keys_define_all)
qed

lemma defaultQueryEditor_untagged:
  "defaultQueryEditor h d c = Some e \<Longrightarrow> ''inLocalStorage'' \<notin> fst ` set e"
  by (auto simp: defaultQueryEditor_def object_def split: Option.bind_splits
      dest!: key_of_define_all)

lemma activeQueryEditor_untagged:
  "activeQueryEditor h a i = Some e \<Longrightarrow> ''inLocalStorage'' \<notin> fst ` set e"
  by (auto simp: activeQueryEditor_def object_def split: Option.bind_splits
      dest!: key_of_define_all)

lemma dummyQueryEditor_untagged:
  assumes "dummyQueryEditor h d i l = Some e" and "''inLocalStorage'' \<notin> fst ` set d"
  shows "''inLocalStorage'' \<notin> fst ` set e"
proof -
  from assms(1) obtain s where
    e: "e = define_all (spread [] (JObj d)) [(''id'', JStr s), (''loaded'', JBool False), (''name'', l)]"
    by (auto simp: dummyQueryEditor_def split: Option.bind_splits)
  have "fst ` set e = fst ` set d \<union> {''id'', ''loaded'', ''name''}"
    unfolding e by (simp add: keys_define_all keys_spread_empty)
  with assms(2) show ?thesis by simp
qed

lemma set_copy_with:
  "set (define_prop (spread [] (JObj ps)) k v) \<subseteq> insert (k, v) (set ps)"
proof -
  have "set (spread [] (JObj ps)) \<subseteq> set (own_props (JObj ps))"
    using set_define_all [of "[]" "own_props (JObj ps)"] by (simp add: spread_def)
  with set_own_props_JObj [of ps] set_define_prop [of "spread [] (JObj ps)" k v]
  show ?thesis by blast
qed

lemma load_tab_untagged:
  assumes "''inLocalStorage'' \<notin> fst ` set d"
    and "\<forall>e \<in> snd ` set es. own_prop e ''inLocalStorage'' = None"
    and "load_tab h d a t es = Some es1"
  shows "\<forall>e \<in> snd ` set es1. own_prop e ''inLocalStorage'' = None"
proof -
  from assms(3) obtain qe key
    where qe: "activeQueryEditor h a (the (get_prop h t ''id'')) = Some qe
             \<or> dummyQueryEditor h d (the (get_prop h t ''id'')) (the (get_prop h t ''label'')) = Some qe"
      and es1: "es1 = define_prop (spread [] (JObj es)) key (JObj qe)"
    by (auto simp: load_tab_def split: Option.bind_splits if_splits)
  from qe assms(1) have "''inLocalStorage'' \<notin> fst ` set qe"
    by (auto dest: activeQueryEditor_untagged dummyQueryEditor_untagged)
  then have "own_prop (JObj qe) ''inLocalStorage'' = None" by (rule own_prop_JObj_None)
  with assms(2) set_copy_with [of es key "JObj qe"] show ?thesis
    unfolding es1 by fastforce
qed

lemma server_state_untagged:
  assumes "server_state h p store = Some vars"
  shows "\<forall>e \<in> snd ` set (v_queryEditors vars). own_prop e ''inLocalStorage'' = None"
proof -
  from assms obtain d ts where d: "defaultQueryEditor h (p_defaultDbId p) (p_common p) = Some d"
    and run: "forEach (load_tab h d (p_activeTab p)) ts [] = Normal (v_queryEditors vars)"
    by (auto simp: server_state_def split: Option.bind_splits completion.splits
        elim!: propagate.elims)
  let ?P = "\<lambda>es :: 'a props. \<forall>e \<in> snd ` set es. own_prop e ''inLocalStorage'' = None"
  have step: "?P es1" if "?P es" and "load_tab h d (p_activeTab p) t es = Some es1" for t es es1
    using load_tab_untagged [OF defaultQueryEditor_untagged [OF d] that] .
  have "?P []" by simp
  from forEach_invariant [of ?P "[]" "load_tab h d (p_activeTab p)" ts "v_queryEditors vars",
      OF this step] run
  show ?thesis by simp
qed

lemma returned_editors_untagged:
  assumes "fst (getInitialState h arg (Holds None)) = Some state"
  shows "\<forall>editor \<in> set (queryEditors (sqlLab state)). own_prop editor ''inLocalStorage'' = None"
proof -
  from assms obtain p vars where s: "server_state h p (Holds None) = Some vars"
    and a: "assemble h p vars = Some state"
    by (auto simp: getInitialState_without_legacy split: Option.bind_splits)
  from a have "queryEditors (sqlLab state) = map snd (own_props (JObj (v_queryEditors vars)))"
    by (auto simp: assemble_def split: Option.bind_splits)
  with server_state_untagged [OF s] set_own_props_JObj [of "v_queryEditors vars"]
  show ?thesis by fastforce
qed

text \<open>
  C5. When the item parses to a value whose \<^verbatim>\<open>sqlLab\<close> is an object with the empty array
  for \<^verbatim>\<open>queryEditors\<close>, \<open>getInitialState\<close> returns exactly the state it returns with an
  empty store (the legacy data is discarded); when it returns a state the item has
  been removed from the store, and no editor of the state has the property
  \<^verbatim>\<open>inLocalStorage\<close>. (If the function throws before the \<^verbatim>\<open>try\<close> block, on a malformed
  argument, the store is untouched.)
\<close>

theorem migration_complete_cleanup:
  assumes "s \<noteq> []"
    and "h_JSON_parse h s = Some parsed"
    and "get_prop h parsed ''sqlLab'' = Some (JObj sl)"
    and "get_prop h (JObj sl) ''queryEditors'' = Some (JArr [])"
    and "h_strict_eq h (h_of_nat h 0) (h_of_nat h 0)"
  shows "fst (getInitialState h arg (Holds (Some s))) = fst (getInitialState h arg (Holds None))
       \<and> (\<forall>state. fst (getInitialState h arg (Holds (Some s))) = Some state \<longrightarrow>
             snd (getInitialState h arg (Holds (Some s))) = Holds None
           \<and> (\<forall>editor \<in> set (queryEditors (sqlLab state)).
                 own_prop editor ''inLocalStorage'' = None))"
proof -
  have "catch (try_block h vars) = vars\<lparr>v_localStorage := Holds None\<rparr>"
    if "v_localStorage vars = Holds (Some s)" for vars :: "'a vars"
    using try_block_migrated [OF that assms] by simp
  from getInitialState_store_changed [of "Holds (Some s)" h "Holds None", OF this, of arg]
  have same: "fst (getInitialState h arg (Holds (Some s))) = fst (getInitialState h arg (Holds None))"
    and store: "fst (getInitialState h arg (Holds (Some s))) \<noteq> None \<longrightarrow>
                  snd (getInitialState h arg (Holds (Some s))) = Holds None"
    by simp_all
  show ?thesis
    using same store returned_editors_untagged [of h arg] by auto
qed

theorem migration_complete_cleanup_witness:
  "\<exists>state.
     getInitialState
       (example_host [(''migrated'', JObj [(''sqlLab'', JObj [(''queryEditors'', JArr [])])])])
       (JObj [(''common'', JObj [(''conf'', JObj [])]),
              (''tab_state_ids'', JArr [JObj [(''id'', JNum (Finite 1)), (''label'', JStr ''Tab 1'')]])])
       (Holds (Some ''migrated''))
     = (Some state, Holds None)
   \<and> fst (getInitialState
       (example_host [(''migrated'', JObj [(''sqlLab'', JObj [(''queryEditors'', JArr [])])])])
       (JObj [(''common'', JObj [(''conf'', JObj [])]),
              (''tab_state_ids'', JArr [JObj [(''id'', JNum (Finite 1)), (''label'', JStr ''Tab 1'')]])])
       (Holds None)) = Some state
   \<and> length (queryEditors (sqlLab state)) = 1
   \<and> list_all (\<lambda>editor. own_prop editor ''inLocalStorage'' = None) (queryEditors (sqlLab state))"
proof -
  let ?parsed = "JObj [(''sqlLab'', JObj [(''queryEditors'', JArr [])])] :: number jsval"
  let ?h = "example_host [(''migrated'', ?parsed)]"
  let ?arg = "JObj [(''common'', JObj [(''conf'', JObj [])]),
              (''tab_state_ids'', JArr [JObj [(''id'', JNum (Finite 1)), (''label'', JStr ''Tab 1'')]])] :: number jsval"
  have s: "''migrated'' \<noteq> []" and p: "h_JSON_parse ?h ''migrated'' = Some ?parsed"
    and g: "get_prop ?h ?parsed ''sqlLab'' = Some (JObj [(''queryEditors'', JArr [])])"
      "get_prop ?h (JObj [(''queryEditors'', JArr [])]) ''queryEditors'' = Some (JArr [])"
    and z: "h_strict_eq ?h (h_of_nat ?h 0) (h_of_nat ?h 0)"
    by (simp_all add: eval_props)
  have "\<exists>state. fst (getInitialState ?h ?arg (Holds None)) = Some state
          \<and> length (queryEditors (sqlLab state)) = 1"
    by (simp add: getInitialState_without_legacy destructure_def server_state_def
        defaultQueryEditor_def load_tab_def dummyQueryEditor_def initialTabHistory_def
        initialTables_def assemble_def convert_queries_def dedupeTabHistory_def
        eval_props eval_values cong: eval_cong)
  then obtain state where n: "fst (getInitialState ?h ?arg (Holds None)) = Some state"
    and l: "length (queryEditors (sqlLab state)) = 1"
    by blast
  from migration_complete_cleanup [OF s p g z, of ?arg] n
  have "getInitialState ?h ?arg (Holds (Some ''migrated'')) = (Some state, Holds None)"
    and "\<forall>editor \<in> set (queryEditors (sqlLab state)). own_prop editor ''inLocalStorage'' = None"
    by (simp_all add: prod_eq_iff)
  with n l show ?thesis by (auto simp: list_all_iff)
qed

section \<open>Properties of the whole function\<close>































end
